theory Spec2Isabelle
  imports Main "HOL-Library.Word" "HOL-Library.Char_ord" "HOL-Library.List_Lexorder"
begin

section \<open>Recording Store (frontend/lib/indexeddb.ts)\<close>

subsection \<open>Data model\<close>

text \<open>
  A \<open>Blob\<close> is its byte content together with its \<open>type\<close> tag; \<open>blob.size\<close> is the
  number of bytes.
\<close>

type_synonym byte = "8 word"

record blob =
  bytes :: "byte list"
  mime :: string

definition blob_size :: "blob \<Rightarrow> nat" where
  "blob_size b = length (bytes b)"

text \<open>
  The interface \<open>RecordingMeta\<close>. The fields are \<open>id\<close>, \<open>name\<close>, \<open>timestamp\<close>,
  \<open>duration\<close> and \<open>size\<close> in the source; they carry the prefix \<open>rec_\<close> here because
  \<open>id\<close> and \<open>size\<close> are constants of HOL. \<open>Date.now()\<close> is an integer number of
  milliseconds, the other numbers are counts.
\<close>

record RecordingMeta =
  rec_id :: string
  rec_name :: string
  rec_timestamp :: int
  rec_duration :: nat
  rec_size :: nat

text \<open>
  What the object store can hold under a key: a payload (\<open>store.put(blob, id)\<close>), a
  metadata record (\<open>store.put(meta, `${id}-meta`)\<close>), or the plain object
  \<open>{...existing, ...updates}\<close> that \<open>updateRecordingMeta\<close> writes when the value it
  read was not a metadata record: a \<open>Blob\<close> has no own enumerable property, so
  that object has at most the property \<open>name\<close>.
\<close>

datatype stored = Payload blob | Meta RecordingMeta | Obj "string option"

text \<open>
  The object store \<open>recordings\<close> has out-of-line string keys and keeps its records in
  ascending key order, which is the order \<open>getAllKeys\<close> reports. It is an association
  list kept sorted by \<open>put\<close>.
\<close>

type_synonym object_store = "(string \<times> stored) list"

definition get :: "object_store \<Rightarrow> string \<Rightarrow> stored option" where
  "get st k = map_of st k"

fun put :: "stored \<Rightarrow> string \<Rightarrow> object_store \<Rightarrow> object_store" where
  "put v k [] = [(k, v)]"
| "put v k ((k', v') # st) =
     (if k = k' then (k, v) # st
      else if k < k' then (k, v) # (k', v') # st
      else (k', v') # put v k st)"

definition delete :: "string \<Rightarrow> object_store \<Rightarrow> object_store" where
  "delete k st = filter (\<lambda>kv. fst kv \<noteq> k) st"

definition getAllKeys :: "object_store \<Rightarrow> string list" where
  "getAllKeys st = map fst st"

text \<open>
  \<open>indexedDB.open\<close> and the transaction are the platform's: either may fail, and a
  failed transaction commits none of its writes. Every operation of the store takes the
  platform's behaviour during the call as its first argument and rejects with the
  corresponding error.
\<close>

datatype platform = Healthy | OpenFails | TransactionFails

datatype store_error = OpenFailed | TransactionFailed

subsection \<open>Keys and names\<close>

definition endsWith :: "string \<Rightarrow> string \<Rightarrow> bool" where
  "endsWith s suf = (length suf \<le> length s \<and> drop (length s - length suf) s = suf)"

definition metaKey :: "string \<Rightarrow> string" where
  "metaKey i = i @ ''-meta''"

fun decimal :: "nat \<Rightarrow> string" where
  "decimal n = (if n < 10 then [''0123456789'' ! n]
                else decimal (n div 10) @ [''0123456789'' ! (n mod 10)])"

text \<open>\<open>generateRecordingId\<close>: \<open>`recording-${Date.now()}`\<close>.\<close>

definition generateRecordingId :: "nat \<Rightarrow> string" where
  "generateRecordingId now = ''recording-'' @ decimal now"

text \<open>
  \<open>name || generateDefaultName()\<close>: an absent or empty name is falsy. The default name is
  formatted by the platform's locale and is an argument here.
\<close>

definition name_or_default :: "string option \<Rightarrow> string \<Rightarrow> string" where
  "name_or_default nm defaultName =
     (case nm of None \<Rightarrow> defaultName | Some n \<Rightarrow> if n = [] then defaultName else n)"

subsection \<open>Operations\<close>

definition saveVideo ::
  "platform \<Rightarrow> int \<Rightarrow> string \<Rightarrow> string \<Rightarrow> blob \<Rightarrow> nat \<Rightarrow> string option \<Rightarrow> object_store
     \<Rightarrow> (store_error + RecordingMeta) \<times> object_store" where
  "saveVideo env now defaultName i b duration nm st =
     (let meta = \<lparr>rec_id = i, rec_name = name_or_default nm defaultName,
                  rec_timestamp = now, rec_duration = duration, rec_size = blob_size b\<rparr>
      in case env of
           OpenFails \<Rightarrow> (Inl OpenFailed, st)
         | TransactionFails \<Rightarrow> (Inl TransactionFailed, st)
         | Healthy \<Rightarrow> (Inr meta, put (Meta meta) (metaKey i) (put (Payload b) i st)))"

text \<open>
  \<open>updateRecordingMeta(id, updates)\<close> with \<open>updates: Partial<Pick<RecordingMeta, 'name'>>\<close>:
  the update is the optional new name. \<open>{...existingMeta, ...updates}\<close> replaces the name
  when the update has one and keeps every other property.
\<close>

fun merge_updates :: "stored \<Rightarrow> string option \<Rightarrow> stored" where
  "merge_updates (Meta m) None = Meta m"
| "merge_updates (Meta m) (Some n) = Meta (m\<lparr>rec_name := n\<rparr>)"
| "merge_updates (Payload b) u = Obj u"
| "merge_updates (Obj old) None = Obj old"
| "merge_updates (Obj old) (Some n) = Obj (Some n)"

definition updateRecordingMeta ::
  "platform \<Rightarrow> string \<Rightarrow> string option \<Rightarrow> object_store
     \<Rightarrow> (store_error + stored option) \<times> object_store" where
  "updateRecordingMeta env i updates st =
     (case env of
        OpenFails \<Rightarrow> (Inl OpenFailed, st)
      | TransactionFails \<Rightarrow> (Inl TransactionFailed, st)
      | Healthy \<Rightarrow>
          (case get st (metaKey i) of
             None \<Rightarrow> (Inr None, st)
           | Some existingMeta \<Rightarrow>
               (let updatedMeta = merge_updates existingMeta updates
                in (Inr (Some updatedMeta), put updatedMeta (metaKey i) st))))"

text \<open>\<open>getVideo\<close>: \<open>request.result || null\<close>; every stored value is an object, hence truthy.\<close>

definition getVideo :: "platform \<Rightarrow> string \<Rightarrow> object_store \<Rightarrow> store_error + stored option" where
  "getVideo env i st =
     (case env of
        OpenFails \<Rightarrow> Inl OpenFailed
      | TransactionFails \<Rightarrow> Inl TransactionFailed
      | Healthy \<Rightarrow> Inr (get st i))"

text \<open>
  The comparator \<open>(a, b) => b.timestamp - a.timestamp\<close>. Only a metadata record has a
  \<open>timestamp\<close>; on any other value the difference is \<open>NaN\<close>, which
  \<open>Array.prototype.sort\<close> reads as \<open>+0\<close>.
\<close>

fun timestamp_of :: "stored \<Rightarrow> int option" where
  "timestamp_of (Meta m) = Some (rec_timestamp m)"
| "timestamp_of v = None"

definition compareFn :: "stored \<Rightarrow> stored \<Rightarrow> int" where
  "compareFn a b =
     (case (timestamp_of a, timestamp_of b) of
        (Some ta, Some tb) \<Rightarrow> tb - ta
      | _ \<Rightarrow> 0)"

text \<open>
  \<open>Array.prototype.sort\<close> is stable. On metadata records the comparator is a consistent
  order and every stable sort gives the same result, which stable insertion computes.
  On a list that holds another value the comparator is not consistent and the order
  is left to the engine; insertion fixes one such order, and a permutation of the
  list in every case.
\<close>

fun sort_insert :: "stored \<Rightarrow> stored list \<Rightarrow> stored list" where
  "sort_insert x [] = [x]"
| "sort_insert x (y # ys) =
     (if compareFn x y \<le> 0 then x # y # ys else y # sort_insert x ys)"

fun array_sort :: "stored list \<Rightarrow> stored list" where
  "array_sort [] = []"
| "array_sort (x # xs) = sort_insert x (array_sort xs)"

text \<open>
  \<open>getAllRecordings\<close>: all keys, those ending in \<open>-meta\<close>, the value under each (read in
  the same transaction, so the key is present), sorted.
\<close>

definition metaKeys :: "object_store \<Rightarrow> string list" where
  "metaKeys st = filter (\<lambda>k. endsWith k ''-meta'') (getAllKeys st)"

definition fetched :: "object_store \<Rightarrow> stored list" where
  "fetched st = List.map_filter (get st) (metaKeys st)"

definition getAllRecordings :: "platform \<Rightarrow> object_store \<Rightarrow> store_error + stored list" where
  "getAllRecordings env st =
     (case env of
        OpenFails \<Rightarrow> Inl OpenFailed
      | TransactionFails \<Rightarrow> Inl TransactionFailed
      | Healthy \<Rightarrow> Inr (array_sort (fetched st)))"

definition deleteVideo :: "platform \<Rightarrow> string \<Rightarrow> object_store \<Rightarrow> (store_error + unit) \<times> object_store" where
  "deleteVideo env i st =
     (case env of
        OpenFails \<Rightarrow> (Inl OpenFailed, st)
      | TransactionFails \<Rightarrow> (Inl TransactionFailed, st)
      | Healthy \<Rightarrow> (Inr (), delete (metaKey i) (delete i st)))"

section \<open>Capture Controller (ScreenRecorder component)\<close>

text \<open>
  The component of the revision that hands a duration to \<open>saveVideo\<close>. Its React state
  and its refs are the fields of one record; \<open>db\<close> is the content of the object store.
\<close>

definition MAX_RECORDING_DURATION :: nat where
  "MAX_RECORDING_DURATION = 3 * 60 * 1000"

record media_stream =
  tracks_live :: bool
  audio_tracks :: nat

datatype recorder_state = inactive | recording

text \<open>
  A \<open>MediaRecorder\<close> with what its \<open>onstop\<close> handler closes over: \<open>mimeType\<close>, and
  \<open>recordingTime\<close>, which is the constant of the render whose \<open>startRecording\<close> created the
  handler. \<open>stop_pending\<close> holds between \<open>stop()\<close> and the dispatch of the \<open>stop\<close> event.
\<close>

record media_recorder =
  state :: recorder_state
  mimeType :: string
  mixed_audio :: bool
  closure_recordingTime :: nat
  stop_pending :: bool

text \<open>A timer handle: armed with the milliseconds left until it is due, or cleared.\<close>

datatype timer = Armed nat | Cleared

record component =
  isRecording :: bool
  recordings :: "stored list"
  selectedRecording :: "string option"
  videoUrl :: "blob option"
  error :: "string option"
  recordingTime :: nat
  includeMic :: bool
  mediaRecorderRef :: "media_recorder option"
  streamRef :: "media_stream option"
  micStreamRef :: "media_stream option"
  audioContextRef :: "bool option"
  chunksRef :: "blob list"
  timerRef :: "timer option"
  autoStopTimerRef :: "timer option"
  currentRecordingIdRef :: "string option"
  db :: object_store

definition initial :: component where
  "initial = \<lparr>isRecording = False, recordings = [], selectedRecording = None, videoUrl = None,
     error = None, recordingTime = 0, includeMic = True, mediaRecorderRef = None,
     streamRef = None, micStreamRef = None, audioContextRef = None, chunksRef = [],
     timerRef = None, autoStopTimerRef = None, currentRecordingIdRef = None, db = []\<rparr>"

text \<open>
  What the browser answers during one \<open>startRecording\<close>: \<open>getDisplayMedia\<close> and
  \<open>getUserMedia\<close> give a stream or throw an error with a message, and
  \<open>MediaRecorder.isTypeSupported\<close> is a predicate on mime types.
\<close>

record capture_platform =
  getDisplayMedia :: "string + media_stream"
  getUserMedia :: "string + media_stream"
  isTypeSupported :: "string \<Rightarrow> bool"

definition select_mimeType :: "(string \<Rightarrow> bool) \<Rightarrow> string" where
  "select_mimeType supported =
     (if supported ''video/webm;codecs=vp9'' then ''video/webm;codecs=vp9''
      else if supported ''video/webm'' then ''video/webm''
      else ''video/mp4'')"

text \<open>
  \<open>startRecording\<close>. A failed \<open>getDisplayMedia\<close> lands in the outer \<open>catch\<close>; a failed
  \<open>getUserMedia\<close> lands in the inner one and the screen stream is recorded alone. The
  recorder is started with one-second slices, then the interval and the auto-stop
  timeout are armed, all without an intervening \<open>await\<close>.
\<close>

definition startRecording :: "capture_platform \<Rightarrow> nat \<Rightarrow> component \<Rightarrow> component" where
  "startRecording p now s =
     (let s1 = s\<lparr>error := None, chunksRef := [],
                 currentRecordingIdRef := Some (generateRecordingId now)\<rparr>
      in case getDisplayMedia p of
           Inl msg \<Rightarrow> s1\<lparr>error := Some msg\<rparr>
         | Inr screenStream \<Rightarrow>
             (let s2 = s1\<lparr>streamRef := Some screenStream\<rparr>;
                  (s3, mixed) =
                    (if includeMic s2 then
                       (case getUserMedia p of
                          Inr micStream \<Rightarrow>
                            (s2\<lparr>micStreamRef := Some micStream, audioContextRef := Some True\<rparr>,
                             True)
                        | Inl micError \<Rightarrow> (s2, False))
                     else (s2, False));
                  mediaRecorder = \<lparr>state = recording,
                                   mimeType = select_mimeType (isTypeSupported p),
                                   mixed_audio = mixed,
                                   closure_recordingTime = recordingTime s,
                                   stop_pending = False\<rparr>
              in s3\<lparr>mediaRecorderRef := Some mediaRecorder,
                    isRecording := True,
                    timerRef := Some (Armed 1000),
                    autoStopTimerRef := Some (Armed MAX_RECORDING_DURATION)\<rparr>))"

text \<open>\<open>mediaRecorder.ondataavailable\<close>: a non-empty slice is appended to the buffer.\<close>

definition ondataavailable :: "blob \<Rightarrow> component \<Rightarrow> component" where
  "ondataavailable data s =
     (if blob_size data > 0 then s\<lparr>chunksRef := chunksRef s @ [data]\<rparr> else s)"

text \<open>
  \<open>if (mediaRecorderRef.current?.state === 'recording') mediaRecorderRef.current.stop()\<close>
  is the body of \<open>stopRecording\<close>, of the video track's \<open>onended\<close> and of the auto-stop
  timeout. \<open>stop()\<close> makes the recorder inactive and queues its \<open>stop\<close> event.
\<close>

definition stop_if_recording :: "component \<Rightarrow> component" where
  "stop_if_recording s =
     (case mediaRecorderRef s of
        None \<Rightarrow> s
      | Some r \<Rightarrow>
          if state r = recording
          then s\<lparr>mediaRecorderRef := Some (r\<lparr>state := inactive, stop_pending := True\<rparr>)\<rparr>
          else s)"

definition stopRecording :: "component \<Rightarrow> component" where
  "stopRecording s = stop_if_recording s"

definition onended :: "component \<Rightarrow> component" where
  "onended s = stop_if_recording s"

definition autoStop_callback :: "component \<Rightarrow> component" where
  "autoStop_callback s = stop_if_recording s"

text \<open>
  One second passes. The interval, armed first, runs \<open>setRecordingTime(prev => prev + 1)\<close>;
  the timeout then runs its callback if it has become due. Timers fire when due.
\<close>

definition second_elapses :: "component \<Rightarrow> component" where
  "second_elapses s =
     (let s1 = (case timerRef s of
                  Some (Armed period) \<Rightarrow> s\<lparr>recordingTime := recordingTime s + 1\<rparr>
                | _ \<Rightarrow> s)
      in case autoStopTimerRef s1 of
           Some (Armed ms) \<Rightarrow>
             if ms \<le> 1000 then autoStop_callback (s1\<lparr>autoStopTimerRef := Some Cleared\<rparr>)
             else s1\<lparr>autoStopTimerRef := Some (Armed (ms - 1000))\<rparr>
         | _ \<Rightarrow> s1)"

definition loadRecordings :: "platform \<Rightarrow> component \<Rightarrow> component" where
  "loadRecordings env s =
     (case getAllRecordings env (db s) of
        Inr allRecordings \<Rightarrow> s\<lparr>recordings := allRecordings\<rparr>
      | Inl err \<Rightarrow> s)"

text \<open>
  \<open>playRecording\<close>: \<open>URL.createObjectURL\<close> accepts a \<open>Blob\<close> only and throws on anything
  else, into the same \<open>catch\<close> as a failed \<open>getVideo\<close>.
\<close>

definition playRecording :: "platform \<Rightarrow> string \<Rightarrow> component \<Rightarrow> component" where
  "playRecording env i s =
     (case getVideo env i (db s) of
        Inl err \<Rightarrow> s\<lparr>error := Some ''Failed to load recording''\<rparr>
      | Inr None \<Rightarrow> s
      | Inr (Some (Payload b)) \<Rightarrow> s\<lparr>videoUrl := Some b, selectedRecording := Some i\<rparr>
      | Inr (Some other) \<Rightarrow> s\<lparr>error := Some ''Failed to load recording''\<rparr>)"

text \<open>The statements of \<open>onstop\<close> after the \<open>if\<close>: streams, audio context, timers, state.\<close>

definition cleanup :: "component \<Rightarrow> component" where
  "cleanup s =
     s\<lparr>streamRef := map_option (\<lambda>m. m\<lparr>tracks_live := False\<rparr>) (streamRef s),
       micStreamRef := map_option (\<lambda>m. m\<lparr>tracks_live := False\<rparr>) (micStreamRef s),
       audioContextRef := map_option (\<lambda>running. False) (audioContextRef s),
       timerRef := map_option (\<lambda>t. Cleared) (timerRef s),
       autoStopTimerRef := map_option (\<lambda>t. Cleared) (autoStopTimerRef s),
       isRecording := False,
       recordingTime := 0\<rparr>"

text \<open>
  \<open>mediaRecorder.onstop\<close>, an async function with no \<open>try\<close>: when \<open>await saveVideo(...)\<close>
  rejects, the function rejects there and none of its later statements run. The result
  is the rejection, if any, and the state the handler leaves. The three platforms are
  those of \<open>saveVideo\<close>, \<open>getAllRecordings\<close> and \<open>getVideo\<close>.
\<close>

definition onstop ::
  "media_recorder \<Rightarrow> platform \<Rightarrow> platform \<Rightarrow> platform \<Rightarrow> int \<Rightarrow> string \<Rightarrow> component
     \<Rightarrow> store_error option \<times> component" where
  "onstop r env_save env_list env_get now defaultName s =
     (let b = \<lparr>bytes = concat (map bytes (chunksRef s)), mime = mimeType r\<rparr>;
          duration = closure_recordingTime r
      in case currentRecordingIdRef s of
           None \<Rightarrow> (None, cleanup s)
         | Some i \<Rightarrow>
             if i = [] then (None, cleanup s)
             else
               (case saveVideo env_save now defaultName i b duration None (db s) of
                  (Inl err, db') \<Rightarrow> (Some err, s\<lparr>db := db'\<rparr>)
                | (Inr meta, db') \<Rightarrow>
                    (None, cleanup (playRecording env_get i
                                     (loadRecordings env_list (s\<lparr>db := db'\<rparr>))))))"

text \<open>The dispatch of the queued \<open>stop\<close> event to the handler.\<close>

definition dispatch_stop ::
  "platform \<Rightarrow> platform \<Rightarrow> platform \<Rightarrow> int \<Rightarrow> string \<Rightarrow> component
     \<Rightarrow> store_error option \<times> component" where
  "dispatch_stop env_save env_list env_get now defaultName s =
     (case mediaRecorderRef s of
        None \<Rightarrow> (None, s)
      | Some r \<Rightarrow>
          if stop_pending r
          then onstop r env_save env_list env_get now defaultName
                 (s\<lparr>mediaRecorderRef := Some (r\<lparr>stop_pending := False\<rparr>)\<rparr>)
          else (None, s))"

text \<open>The states of the capture session, read off the recorder.\<close>

datatype phase = Idle | Recording | Finalizing

definition phase_of :: "component \<Rightarrow> phase" where
  "phase_of s =
     (case mediaRecorderRef s of
        None \<Rightarrow> Idle
      | Some r \<Rightarrow>
          if state r = recording then Recording
          else if stop_pending r then Finalizing
          else Idle)"

text \<open>What can happen to a session between its start and the dispatch of \<open>stop\<close>.\<close>

datatype event = Second | Data blob | ManualStop | ShareEnded

fun step :: "event \<Rightarrow> component \<Rightarrow> component" where
  "step Second s = second_elapses s"
| "step (Data d) s = ondataavailable d s"
| "step ManualStop s = stopRecording s"
| "step ShareEnded s = onended s"

fun run :: "event list \<Rightarrow> component \<Rightarrow> component" where
  "run [] s = s"
| "run (e # es) s = run es (step e s)"

section \<open>Store states\<close>

text \<open>
  The states of the object store that its three writing operations produce from the
  empty store, on any platform, when every id they are called with satisfies \<open>ok\<close>.
\<close>

inductive reachable :: "(string \<Rightarrow> bool) \<Rightarrow> object_store \<Rightarrow> bool" for ok :: "string \<Rightarrow> bool" where
  opened: "reachable ok []"
| saved: "reachable ok st \<Longrightarrow> ok i \<Longrightarrow> reachable ok (snd (saveVideo env now defaultName i b duration nm st))"
| updated: "reachable ok st \<Longrightarrow> ok i \<Longrightarrow> reachable ok (snd (updateRecordingMeta env i updates st))"
| deleted: "reachable ok st \<Longrightarrow> ok i \<Longrightarrow> reachable ok (snd (deleteVideo env i st))"

definition any_id :: "string \<Rightarrow> bool" where
  "any_id i = True"

definition plain_id :: "string \<Rightarrow> bool" where
  "plain_id i = (\<not> endsWith i ''-meta'')"

text \<open>
  \<open>paired\<close>: a payload under \<open>id\<close> exactly when a metadata record under \<open>id-meta\<close>.
  \<open>keyed\<close>: a metadata record is stored under the key derived from its own \<open>id\<close>.
  \<open>well_formed\<close>: the keys ending in \<open>-meta\<close> hold the metadata records, each with its
  payload, and the other keys hold the payloads, each with its metadata record.
\<close>

definition paired :: "object_store \<Rightarrow> bool" where
  "paired st = (\<forall>i. (\<exists>b. get st i = Some (Payload b)) = (\<exists>m. get st (metaKey i) = Some (Meta m)))"

definition keyed :: "object_store \<Rightarrow> bool" where
  "keyed st = (\<forall>k m. get st k = Some (Meta m) \<longrightarrow> k = metaKey (rec_id m))"

definition well_formed :: "object_store \<Rightarrow> bool" where
  "well_formed st =
     (\<forall>k v. get st k = Some v \<longrightarrow>
        (if endsWith k ''-meta''
         then (\<exists>m. v = Meta m \<and> k = metaKey (rec_id m) \<and>
                (\<exists>b. get st (rec_id m) = Some (Payload b) \<and> rec_size m = blob_size b))
         else (\<exists>b. v = Payload b \<and> (\<exists>m. get st (metaKey k) = Some (Meta m)))))"

text \<open>Two concrete stores: one save followed by a delete, and two saves.\<close>

definition stray_store :: object_store where
  "stray_store =
     snd (deleteVideo Healthy ''a-meta''
       (snd (saveVideo Healthy 100 ''Recording'' ''a'' \<lparr>bytes = [1, 2, 3], mime = ''video/webm''\<rparr> 5 None [])))"

definition two_saved :: object_store where
  "two_saved =
     snd (saveVideo Healthy 200 ''Recording'' ''r2'' \<lparr>bytes = [7], mime = ''video/webm''\<rparr> 0 None
       (snd (saveVideo Healthy 100 ''Recording'' ''r1'' \<lparr>bytes = [1, 2, 3], mime = ''video/webm''\<rparr> 0 None [])))"

text \<open>
  The timestamps of the metadata records in a list of stored values, and in the store;
  a list of timestamps that falls strictly from each element to the next.
\<close>

definition listed_timestamps :: "stored list \<Rightarrow> int list" where
  "listed_timestamps rs = List.map_filter timestamp_of rs"

definition stored_timestamps :: "object_store \<Rightarrow> int list" where
  "stored_timestamps st = listed_timestamps (map snd st)"

fun descending :: "int list \<Rightarrow> bool" where
  "descending [] = True"
| "descending [x] = True"
| "descending (x # y # ys) = (y < x \<and> descending (y # ys))"

text \<open>
  Two stores that hold a recording whose id ends in \<open>-meta\<close>: four saves, at the
  timestamps 300 (\<open>a\<close>), 200 (\<open>b-meta\<close>), 100 (\<open>c\<close>) and 400 (\<open>d\<close>); and the single
  save of \<open>x-meta\<close>.
\<close>

definition four_saved :: object_store where
  "four_saved =
     snd (saveVideo Healthy 400 ''Recording'' ''d'' \<lparr>bytes = [4], mime = ''video/webm''\<rparr> 0 None
       (snd (saveVideo Healthy 100 ''Recording'' ''c'' \<lparr>bytes = [3], mime = ''video/webm''\<rparr> 0 None
         (snd (saveVideo Healthy 200 ''Recording'' ''b-meta'' \<lparr>bytes = [2], mime = ''video/webm''\<rparr> 0 None
           (snd (saveVideo Healthy 300 ''Recording'' ''a'' \<lparr>bytes = [1], mime = ''video/webm''\<rparr> 0 None [])))))))"

definition suffix_saved :: object_store where
  "suffix_saved =
     snd (saveVideo Healthy 100 ''Recording'' ''x-meta'' \<lparr>bytes = [1, 2, 3], mime = ''video/webm''\<rparr> 0 None [])"

section \<open>A capture session\<close>

text \<open>
  A browser that grants screen and microphone and records \<open>video/webm\<close>, and a session
  in it: started at time 1000 from the initial component, five seconds and two data
  slices long, then stopped by hand.
\<close>

definition browser :: capture_platform where
  "browser = \<lparr>getDisplayMedia = Inr \<lparr>tracks_live = True, audio_tracks = 1\<rparr>,
              getUserMedia = Inr \<lparr>tracks_live = True, audio_tracks = 1\<rparr>,
              isTypeSupported = (\<lambda>t. t = ''video/webm'')\<rparr>"

definition five_seconds :: component where
  "five_seconds =
     stopRecording (run [Second, Data \<lparr>bytes = [1, 2], mime = ''video/webm''\<rparr>, Second, Second,
                         Data \<lparr>bytes = [3], mime = ''video/webm''\<rparr>, Second, Second]
       (startRecording browser 1000 initial))"

text \<open>
  \<open>armed_at n s\<close>: the session is recording, \<open>n\<close> seconds after its start, and the
  auto-stop timeout has the rest of its delay to run.
\<close>

definition armed_at :: "nat \<Rightarrow> component \<Rightarrow> bool" where
  "armed_at n s =
     (phase_of s = Recording \<and> n < 180 \<and>
      autoStopTimerRef s = Some (Armed (MAX_RECORDING_DURATION - 1000 * n)))"

definition is_stop :: "event \<Rightarrow> bool" where
  "is_stop e = (e = ManualStop \<or> e = ShareEnded)"

section \<open>Properties of the store\<close>

lemma get_put: "get (put v k st) = (get st)(k \<mapsto> v)"
  by (induction st) (auto simp: get_def)

lemma get_delete: "get (delete k st) = (get st)(k := None)"
  by (induction st) (auto simp: get_def delete_def)

lemma metaKey_neq: "metaKey i \<noteq> i"
  by (simp add: metaKey_def)

lemma metaKey_inj: "metaKey i = metaKey j \<longleftrightarrow> i = j"
  by (simp add: metaKey_def)

lemma endsWith_metaKey: "endsWith (metaKey i) ''-meta''"
  by (simp add: endsWith_def metaKey_def)

lemma set_sort_insert: "set (sort_insert x xs) = insert x (set xs)"
  by (induction xs) auto

lemma set_array_sort: "set (array_sort xs) = set xs"
  by (induction xs) (auto simp: set_sort_insert)

lemma set_fetched: "set (fetched st) = {v. \<exists>k. endsWith k ''-meta'' \<and> get st k = Some v}"
proof -
  have keys: "k \<in> set (metaKeys st) \<longleftrightarrow> endsWith k ''-meta'' \<and> get st k \<noteq> None" for k
    by (auto simp: metaKeys_def getAllKeys_def get_def map_of_eq_None_iff)
  have "set (fetched st) = {v. \<exists>k \<in> set (metaKeys st). get st k = Some v}"
    unfolding fetched_def List.map_filter_def by force
  also have "\<dots> = {v. \<exists>k. endsWith k ''-meta'' \<and> get st k = Some v}"
    using keys by auto
  finally show ?thesis .
qed

lemma snd_saveVideo:
  "get (snd (saveVideo env now dn i b d nm st)) =
     (if env = Healthy
      then (get st)(i \<mapsto> Payload b,
             metaKey i \<mapsto> Meta \<lparr>rec_id = i, rec_name = name_or_default nm dn,
                  rec_timestamp = now, rec_duration = d, rec_size = blob_size b\<rparr>)
      else get st)"
  by (cases env) (simp_all add: saveVideo_def get_put Let_def)

lemma snd_deleteVideo:
  "get (snd (deleteVideo env i st)) =
     (if env = Healthy then (get st)(i := None, metaKey i := None) else get st)"
  by (cases env) (simp_all add: deleteVideo_def get_delete)

lemma snd_updateRecordingMeta:
  "get (snd (updateRecordingMeta env i u st)) =
     (case get st (metaKey i) of
        Some v \<Rightarrow> if env = Healthy then (get st)(metaKey i \<mapsto> merge_updates v u) else get st
      | None \<Rightarrow> get st)"
  by (cases env) (simp_all add: updateRecordingMeta_def get_put Let_def split: option.splits)

lemma merge_updates_Meta:
  "merge_updates v u = Meta m' \<Longrightarrow> \<exists>m. v = Meta m \<and> rec_id m' = rec_id m \<and> rec_size m' = rec_size m
     \<and> rec_timestamp m' = rec_timestamp m \<and> rec_duration m' = rec_duration m"
  by (cases "(v, u)" rule: merge_updates.cases) auto

subsection \<open>Invariants of the reachable states\<close>

lemma keyed_reachable: "reachable ok st \<Longrightarrow> keyed st"
proof (induction rule: reachable.induct)
  case opened
  show ?case by (simp add: keyed_def get_def)
next
  case (saved st i env now defaultName b duration nm)
  then show ?case
    by (auto simp: keyed_def snd_saveVideo split: if_splits)
next
  case (updated st i env updates)
  then show ?case
    by (auto simp: keyed_def snd_updateRecordingMeta split: if_splits option.splits
             dest!: merge_updates_Meta)
next
  case (deleted st i env)
  then show ?case
    by (auto simp: keyed_def snd_deleteVideo split: if_splits)
qed

lemma wf_meta:
  assumes "well_formed st" "get st k = Some v" "endsWith k ''-meta''"
  shows "\<exists>m b. v = Meta m \<and> k = metaKey (rec_id m) \<and>
           get st (rec_id m) = Some (Payload b) \<and> rec_size m = blob_size b"
proof -
  from assms(1) have "get st k = Some v \<longrightarrow>
        (if endsWith k ''-meta''
         then (\<exists>m. v = Meta m \<and> k = metaKey (rec_id m) \<and>
                (\<exists>b. get st (rec_id m) = Some (Payload b) \<and> rec_size m = blob_size b))
         else (\<exists>b. v = Payload b \<and> (\<exists>m. get st (metaKey k) = Some (Meta m))))"
    unfolding well_formed_def by (elim allE)
  with assms(2,3) show ?thesis by auto
qed

lemma wf_payload:
  assumes "well_formed st" "get st k = Some v" "\<not> endsWith k ''-meta''"
  shows "\<exists>b m. v = Payload b \<and> get st (metaKey k) = Some (Meta m)"
proof -
  from assms(1) have "get st k = Some v \<longrightarrow>
        (if endsWith k ''-meta''
         then (\<exists>m. v = Meta m \<and> k = metaKey (rec_id m) \<and>
                (\<exists>b. get st (rec_id m) = Some (Payload b) \<and> rec_size m = blob_size b))
         else (\<exists>b. v = Payload b \<and> (\<exists>m. get st (metaKey k) = Some (Meta m))))"
    unfolding well_formed_def by (elim allE)
  with assms(2,3) show ?thesis by auto
qed

lemma wf_payload_plain:
  assumes "well_formed st" "get st k = Some (Payload b)"
  shows "\<not> endsWith k ''-meta''"
  using wf_meta [OF assms] by auto

lemma well_formed_cong: "get st' = get st \<Longrightarrow> well_formed st \<Longrightarrow> well_formed st'"
  unfolding well_formed_def by (simp only:)

lemma well_formed_reachable: "reachable plain_id st \<Longrightarrow> well_formed st"
proof (induction rule: reachable.induct)
  case opened
  show ?case by (simp add: well_formed_def get_def)
next
  case (saved st i env now defaultName b duration nm)
  show ?case
  proof (cases "env = Healthy")
    case False
    then have "get (snd (saveVideo env now defaultName i b duration nm st)) = get st"
      by (simp add: snd_saveVideo)
    then show ?thesis using saved.IH by (rule well_formed_cong)
  next
    case True
    have plain: "\<not> endsWith i ''-meta''" using saved.hyps(2) by (simp add: plain_id_def)
    show ?thesis
      unfolding well_formed_def
    proof (intro allI impI)
      fix k v
      assume g: "get (snd (saveVideo env now defaultName i b duration nm st)) k = Some v"
      let ?st' = "snd (saveVideo env now defaultName i b duration nm st)"
      consider "k = metaKey i" | "k = i" | "k \<noteq> metaKey i" "k \<noteq> i" by blast
      then show "if endsWith k ''-meta''
          then \<exists>m. v = Meta m \<and> k = metaKey (rec_id m) \<and>
                 (\<exists>b. get ?st' (rec_id m) = Some (Payload b) \<and> rec_size m = blob_size b)
          else \<exists>b. v = Payload b \<and> (\<exists>m. get ?st' (metaKey k) = Some (Meta m))"
      proof cases
        case 1
        let ?meta = "\<lparr>rec_id = i, rec_name = name_or_default nm defaultName,
                  rec_timestamp = now, rec_duration = duration, rec_size = blob_size b\<rparr>"
        have v: "v = Meta ?meta" using g 1 True by (simp add: snd_saveVideo)
        have p: "get ?st' (rec_id ?meta) = Some (Payload b)"
          using True by (simp add: snd_saveVideo metaKey_neq [symmetric])
        have "v = Meta ?meta \<and> k = metaKey (rec_id ?meta) \<and>
                 (\<exists>c. get ?st' (rec_id ?meta) = Some (Payload c) \<and> rec_size ?meta = blob_size c)"
          using v p 1 by simp
        then have "\<exists>m. v = Meta m \<and> k = metaKey (rec_id m) \<and>
                 (\<exists>c. get ?st' (rec_id m) = Some (Payload c) \<and> rec_size m = blob_size c)"
          by (rule exI)
        then show ?thesis using 1 endsWith_metaKey by simp
      next
        case 2
        have v: "v = Payload b" using g 2 True by (simp add: snd_saveVideo metaKey_neq [symmetric])
        have "\<exists>m. get ?st' (metaKey k) = Some (Meta m)"
          using 2 True by (simp add: snd_saveVideo)
        then show ?thesis using 2 plain v by simp
      next
        case 3
        with g True have old: "get st k = Some v" by (simp add: snd_saveVideo)
        show ?thesis
        proof (cases "endsWith k ''-meta''")
          case e: True
          from wf_meta [OF saved.IH old e] obtain m b' where m: "v = Meta m" "k = metaKey (rec_id m)"
            "get st (rec_id m) = Some (Payload b')" "rec_size m = blob_size b'"
            by blast
          have "rec_id m \<noteq> i" using m(2) 3(1) by auto
          moreover have "\<not> endsWith (rec_id m) ''-meta''"
            using wf_payload_plain [OF saved.IH m(3)] .
          then have "rec_id m \<noteq> metaKey i" using endsWith_metaKey by metis
          ultimately have "get ?st' (rec_id m) = Some (Payload b')"
            using m(3) True by (simp add: snd_saveVideo)
          with e m show ?thesis by auto
        next
          case e: False
          from wf_payload [OF saved.IH old e] obtain b' m where m: "v = Payload b'"
            "get st (metaKey k) = Some (Meta m)"
            by blast
          have "metaKey k \<noteq> i" using plain endsWith_metaKey by metis
          moreover have "metaKey k \<noteq> metaKey i" using 3(2) by (simp add: metaKey_inj)
          ultimately have "get ?st' (metaKey k) = Some (Meta m)"
            using m(2) True by (simp add: snd_saveVideo)
          with e m show ?thesis by auto
        qed
      qed
    qed
  qed
next
  case (updated st i env updates)
  show ?case
  proof (cases "env = Healthy \<and> get st (metaKey i) \<noteq> None")
    case False
    then have "get (snd (updateRecordingMeta env i updates st)) = get st"
      by (auto simp: snd_updateRecordingMeta split: option.splits)
    then show ?thesis using updated.IH by (rule well_formed_cong)
  next
    case True
    then obtain v where v: "get st (metaKey i) = Some v" and h: "env = Healthy" by auto
    from wf_meta [OF updated.IH v endsWith_metaKey]
    obtain m b' where m: "v = Meta m" "metaKey i = metaKey (rec_id m)"
      "get st (rec_id m) = Some (Payload b')" "rec_size m = blob_size b'"
      by blast
    obtain m' where m': "merge_updates v updates = Meta m'" "rec_id m' = rec_id m"
      "rec_size m' = rec_size m"
      using m(1) by (cases updates) auto
    have eq: "get (snd (updateRecordingMeta env i updates st)) = (get st)(metaKey i \<mapsto> Meta m')"
      using v h m' by (simp add: snd_updateRecordingMeta)
    have i: "rec_id m = i" using m(2) by (simp add: metaKey_inj)
    show ?thesis
      unfolding well_formed_def eq
    proof (intro allI impI)
      fix k w
      assume g: "((get st)(metaKey i \<mapsto> Meta m')) k = Some w"
      show "if endsWith k ''-meta''
          then \<exists>m. w = Meta m \<and> k = metaKey (rec_id m) \<and>
                 (\<exists>b. ((get st)(metaKey i \<mapsto> Meta m')) (rec_id m) = Some (Payload b) \<and>
                      rec_size m = blob_size b)
          else \<exists>b. w = Payload b \<and> (\<exists>m. ((get st)(metaKey i \<mapsto> Meta m')) (metaKey k) = Some (Meta m))"
      proof (cases "k = metaKey i")
        case True
        have w: "w = Meta m'" using g True by simp
        have p: "((get st)(metaKey i \<mapsto> Meta m')) (rec_id m') = Some (Payload b')"
          using m(3) m'(2) i by (simp add: metaKey_neq [symmetric])
        have "w = Meta m' \<and> k = metaKey (rec_id m') \<and>
                 (\<exists>c. ((get st)(metaKey i \<mapsto> Meta m')) (rec_id m') = Some (Payload c) \<and>
                      rec_size m' = blob_size c)"
          using w p True m'(2,3) m(4) i by simp
        then have "\<exists>m. w = Meta m \<and> k = metaKey (rec_id m) \<and>
                 (\<exists>c. ((get st)(metaKey i \<mapsto> Meta m')) (rec_id m) = Some (Payload c) \<and>
                      rec_size m = blob_size c)"
          by (rule exI)
        then show ?thesis using True endsWith_metaKey by simp
      next
        case False
        with g have old: "get st k = Some w" by simp
        show ?thesis
        proof (cases "endsWith k ''-meta''")
          case e: True
          from wf_meta [OF updated.IH old e] obtain n c where n: "w = Meta n" "k = metaKey (rec_id n)"
            "get st (rec_id n) = Some (Payload c)" "rec_size n = blob_size c"
            by blast
          have "\<not> endsWith (rec_id n) ''-meta''"
            using wf_payload_plain [OF updated.IH n(3)] .
          then have "rec_id n \<noteq> metaKey i" using endsWith_metaKey by metis
          with e n show ?thesis by auto
        next
          case e: False
          from wf_payload [OF updated.IH old e] obtain c n where n: "w = Payload c"
            "get st (metaKey k) = Some (Meta n)"
            by blast
          with e show ?thesis by auto
        qed
      qed
    qed
  qed
next
  case (deleted st i env)
  show ?case
  proof (cases "env = Healthy")
    case False
    then have "get (snd (deleteVideo env i st)) = get st"
      by (simp add: snd_deleteVideo)
    then show ?thesis using deleted.IH by (rule well_formed_cong)
  next
    case True
    have plain: "\<not> endsWith i ''-meta''" using deleted.hyps(2) by (simp add: plain_id_def)
    have eq: "get (snd (deleteVideo env i st)) = (get st)(i := None, metaKey i := None)"
      using True by (simp add: snd_deleteVideo)
    show ?thesis
      unfolding well_formed_def eq
    proof (intro allI impI)
      fix k w
      assume g: "((get st)(i := None, metaKey i := None)) k = Some w"
      then have k: "k \<noteq> i" "k \<noteq> metaKey i" and old: "get st k = Some w"
        by (auto split: if_splits)
      show "if endsWith k ''-meta''
          then \<exists>m. w = Meta m \<and> k = metaKey (rec_id m) \<and>
                 (\<exists>b. ((get st)(i := None, metaKey i := None)) (rec_id m) = Some (Payload b) \<and>
                      rec_size m = blob_size b)
          else \<exists>b. w = Payload b \<and>
                 (\<exists>m. ((get st)(i := None, metaKey i := None)) (metaKey k) = Some (Meta m))"
      proof (cases "endsWith k ''-meta''")
        case e: True
        from wf_meta [OF deleted.IH old e] obtain n c where n: "w = Meta n" "k = metaKey (rec_id n)"
          "get st (rec_id n) = Some (Payload c)" "rec_size n = blob_size c"
          by blast
        have "\<not> endsWith (rec_id n) ''-meta''"
          using wf_payload_plain [OF deleted.IH n(3)] .
        then have "rec_id n \<noteq> metaKey i" using endsWith_metaKey by metis
        moreover have "rec_id n \<noteq> i" using n(2) k(2) by auto
        ultimately show ?thesis using e n by auto
      next
        case e: False
        from wf_payload [OF deleted.IH old e] obtain c n where n: "w = Payload c"
          "get st (metaKey k) = Some (Meta n)"
          by blast
        have "metaKey k \<noteq> i" using plain endsWith_metaKey by metis
        moreover have "metaKey k \<noteq> metaKey i" using k(1) by (simp add: metaKey_inj)
        ultimately show ?thesis using e n by auto
      qed
    qed
  qed
qed

lemma paired_well_formed:
  assumes "well_formed st"
  shows "paired st"
  unfolding paired_def
proof (intro allI iffI)
  fix i
  assume "\<exists>b. get st i = Some (Payload b)"
  then obtain b where b: "get st i = Some (Payload b)" ..
  from wf_payload [OF assms b wf_payload_plain [OF assms b]]
  show "\<exists>m. get st (metaKey i) = Some (Meta m)" by blast
next
  fix i
  assume "\<exists>m. get st (metaKey i) = Some (Meta m)"
  then obtain m where m: "get st (metaKey i) = Some (Meta m)" ..
  from wf_meta [OF assms m endsWith_metaKey]
  obtain b where "metaKey i = metaKey (rec_id m)" "get st (rec_id m) = Some (Payload b)"
    by blast
  then show "\<exists>b. get st i = Some (Payload b)" by (simp add: metaKey_inj)
qed

lemma two_saved_eq:
  "two_saved =
     [(''r1'', Payload \<lparr>bytes = [1, 2, 3], mime = ''video/webm''\<rparr>),
      (''r1-meta'', Meta \<lparr>rec_id = ''r1'', rec_name = ''Recording'', rec_timestamp = 100,
                           rec_duration = 0, rec_size = 3\<rparr>),
      (''r2'', Payload \<lparr>bytes = [7], mime = ''video/webm''\<rparr>),
      (''r2-meta'', Meta \<lparr>rec_id = ''r2'', rec_name = ''Recording'', rec_timestamp = 200,
                           rec_duration = 0, rec_size = 1\<rparr>)]"
  by (simp add: two_saved_def saveVideo_def metaKey_def name_or_default_def blob_size_def Let_def)

lemma reachable_two_saved: "reachable plain_id two_saved"
  unfolding two_saved_def
  by (intro reachable.intros) (simp_all add: plain_id_def endsWith_def)

subsection \<open>Listing and deletion\<close>

lemma delete_twice: "delete k' (delete k (delete k' (delete k st))) = delete k' (delete k st)"
  by (induction st) (auto simp: delete_def)

lemma sort_insert_Meta:
  assumes "sorted_wrt (\<lambda>a b. rec_timestamp b < rec_timestamp a) rs" and "rec_timestamp m \<notin> rec_timestamp ` set rs"
  shows "\<exists>rs'. sort_insert (Meta m) (map Meta rs) = map Meta rs' \<and>
           set rs' = insert m (set rs) \<and> length rs' = Suc (length rs) \<and> sorted_wrt (\<lambda>a b. rec_timestamp b < rec_timestamp a) rs'"
  using assms
proof (induction rs)
  case Nil
  have "sort_insert (Meta m) (map Meta []) = map Meta [m]" by simp
  then show ?case by (intro exI [of _ "[m]"]) simp
next
  case (Cons r rs)
  show ?case
  proof (cases "compareFn (Meta m) (Meta r) \<le> 0")
    case True
    then have lt: "rec_timestamp r < rec_timestamp m"
      using Cons.prems(2) by (auto simp: compareFn_def)
    have "\<forall>x \<in> set rs. rec_timestamp x < rec_timestamp m"
      using Cons.prems(1) lt by auto
    then have "sorted_wrt (\<lambda>a b. rec_timestamp b < rec_timestamp a) (m # r # rs)"
      using Cons.prems(1) lt by simp
    moreover have "sort_insert (Meta m) (map Meta (r # rs)) = map Meta (m # r # rs)"
      using True by simp
    ultimately show ?thesis by (intro exI [of _ "m # r # rs"]) simp
  next
    case False
    then have gt: "rec_timestamp m < rec_timestamp r"
      by (simp add: compareFn_def)
    from Cons.prems have "sorted_wrt (\<lambda>a b. rec_timestamp b < rec_timestamp a) rs" "rec_timestamp m \<notin> rec_timestamp ` set rs"
      by simp_all
    from Cons.IH [OF this] obtain rs' where rs':
      "sort_insert (Meta m) (map Meta rs) = map Meta rs'" "set rs' = insert m (set rs)"
      "length rs' = Suc (length rs)" "sorted_wrt (\<lambda>a b. rec_timestamp b < rec_timestamp a) rs'"
      by blast
    have "sorted_wrt (\<lambda>a b. rec_timestamp b < rec_timestamp a) (r # rs')"
      using rs'(2,4) Cons.prems(1) gt by auto
    moreover have "sort_insert (Meta m) (map Meta (r # rs)) = map Meta (r # rs')"
      using False rs'(1) by simp
    ultimately show ?thesis using rs'(2,3) by (intro exI [of _ "r # rs'"]) auto
  qed
qed

lemma array_sort_Meta:
  assumes "distinct (map rec_timestamp ms)"
  shows "\<exists>rs. array_sort (map Meta ms) = map Meta rs \<and> set rs = set ms \<and>
           length rs = length ms \<and> sorted_wrt (\<lambda>a b. rec_timestamp b < rec_timestamp a) rs"
  using assms
proof (induction ms)
  case Nil
  show ?case by simp
next
  case (Cons m ms)
  then obtain rs where rs: "array_sort (map Meta ms) = map Meta rs" "set rs = set ms"
    "length rs = length ms" "sorted_wrt (\<lambda>a b. rec_timestamp b < rec_timestamp a) rs"
    by auto
  have "rec_timestamp m \<notin> rec_timestamp ` set rs"
    using Cons.prems rs(2) by simp
  from sort_insert_Meta [OF rs(4) this] obtain rs' where
    "sort_insert (Meta m) (map Meta rs) = map Meta rs'" "set rs' = insert m (set rs)"
    "length rs' = Suc (length rs)" "sorted_wrt (\<lambda>a b. rec_timestamp b < rec_timestamp a) rs'"
    by blast
  then show ?case using rs by (intro exI [of _ rs']) simp
qed

lemma fetched_two_saved:
  "fetched two_saved =
     map Meta [\<lparr>rec_id = ''r1'', rec_name = ''Recording'', rec_timestamp = 100,
                 rec_duration = 0, rec_size = 3\<rparr>,
               \<lparr>rec_id = ''r2'', rec_name = ''Recording'', rec_timestamp = 200,
                 rec_duration = 0, rec_size = 1\<rparr>]"
  by (simp add: two_saved_eq fetched_def metaKeys_def getAllKeys_def endsWith_def get_def
      List.map_filter_def)

subsection \<open>Key order and the listing\<close>

lemma keys_put: "set (map fst (put v k st)) = insert k (set (map fst st))"
  by (induction st) force+

lemma sorted_put:
  "sorted_wrt (<) (map fst st) \<Longrightarrow> sorted_wrt (<) (map fst (put v k st))"
proof (induction st)
  case Nil
  show ?case by simp
next
  case (Cons kv st)
  obtain k' v' where kv: "kv = (k', v')" by (cases kv)
  show ?case
  proof (cases "k = k'")
    case True
    with Cons.prems kv show ?thesis by simp
  next
    case ne: False
    show ?thesis
    proof (cases "k < k'")
      case True
      with Cons.prems kv ne show ?thesis by auto
    next
      case False
      with ne have lt: "k' < k" by simp
      from Cons.prems kv have "sorted_wrt (<) (map fst st)" "\<forall>x \<in> set (map fst st). k' < x"
        by simp_all
      with Cons.IH lt have "sorted_wrt (<) (map fst (put v k st))"
        "\<forall>x \<in> set (map fst (put v k st)). k' < x"
        by (simp_all only: keys_put) auto
      with kv ne False show ?thesis by simp
    qed
  qed
qed

lemma sorted_delete:
  "sorted_wrt (<) (map fst st) \<Longrightarrow> sorted_wrt (<) (map fst (delete k st))"
  by (induction st) (auto simp: delete_def)

lemma keys_sorted: "reachable ok st \<Longrightarrow> sorted_wrt (<) (map fst st)"
proof (induction rule: reachable.induct)
  case opened
  show ?case by simp
next
  case (saved st i env now defaultName b duration nm)
  then show ?case by (cases env) (simp_all add: saveVideo_def Let_def sorted_put)
next
  case (updated st i env updates)
  then show ?case
    by (cases env) (simp_all add: updateRecordingMeta_def Let_def sorted_put split: option.splits)
next
  case (deleted st i env)
  then show ?case by (cases env) (simp_all add: deleteVideo_def sorted_delete)
qed

lemma keys_distinct: "reachable ok st \<Longrightarrow> distinct (map fst st)"
  using keys_sorted [of ok st] strict_sorted_iff [of "map fst st"] by simp

lemma map_filter_entries:
  assumes "distinct (map fst st)" and "set xs \<subseteq> set st"
  shows "List.map_filter (get st) (filter P (map fst xs)) = map snd (filter (\<lambda>kv. P (fst kv)) xs)"
  using assms(2)
proof (induction xs)
  case Nil
  show ?case by (simp add:)
next
  case (Cons kv xs)
  obtain k v where kv: "kv = (k, v)" by (cases kv)
  with Cons.prems have "(k, v) \<in> set st" by simp
  with assms(1) have "get st k = Some v" by (simp add: get_def)
  moreover from Cons have "List.map_filter (get st) (filter P (map fst xs)) =
      map snd (filter (\<lambda>kv. P (fst kv)) xs)" by simp
  ultimately show ?case using kv by (simp add:)
qed

lemma fetched_entries:
  assumes "distinct (map fst st)"
  shows "fetched st = map snd (filter (\<lambda>kv. endsWith (fst kv) ''-meta'') st)"
  using map_filter_entries [OF assms, of st] by (simp add: fetched_def metaKeys_def getAllKeys_def)

lemma set_listed_filter:
  "set (listed_timestamps (map snd (filter Q st))) \<subseteq> set (listed_timestamps (map snd st))"
  by (induction st) (auto simp: listed_timestamps_def split: option.splits)

lemma distinct_listed_filter:
  "distinct (listed_timestamps (map snd st)) \<Longrightarrow>
   distinct (listed_timestamps (map snd (filter Q st)))"
proof (induction st)
  case Nil
  show ?case by (simp add: listed_timestamps_def)
next
  case (Cons kv st)
  have sub: "set (listed_timestamps (map snd (filter Q st))) \<subseteq> set (listed_timestamps (map snd st))"
    by (rule set_listed_filter)
  from Cons show ?case
    using sub by (auto simp: listed_timestamps_def split: option.splits)
qed

lemma listed_timestamps_Meta: "listed_timestamps (map Meta ms) = map rec_timestamp ms"
  by (induction ms) (simp_all add: listed_timestamps_def)

lemma descending_distinct:
  "sorted_wrt (\<lambda>a b. rec_timestamp b < rec_timestamp a) rs \<Longrightarrow> distinct rs"
  by (induction rs) auto

lemma fetched_metas:
  assumes wf: "well_formed st"
  shows "\<exists>ms. fetched st = map Meta ms \<and>
           set ms = {m. \<exists>i b. get st i = Some (Payload b) \<and> get st (metaKey i) = Some (Meta m)}"
proof -
  have "set (fetched st) \<subseteq> range Meta"
    unfolding set_fetched using wf_meta [OF wf] by blast
  then obtain ms where ms: "fetched st = map Meta ms"
    by (metis ex_map_conv subset_iff rangeE)
  have "Meta ` set ms = {v. \<exists>k. endsWith k ''-meta'' \<and> get st k = Some v}"
    using ms set_fetched [of st] by (metis set_map)
  then have eq: "m \<in> set ms \<longleftrightarrow> (\<exists>k. endsWith k ''-meta'' \<and> get st k = Some (Meta m))" for m
    by (auto simp: image_iff set_eq_iff)
  have "set ms = {m. \<exists>i b. get st i = Some (Payload b) \<and> get st (metaKey i) = Some (Meta m)}"
  proof (intro set_eqI iffI)
    fix m assume "m \<in> set ms"
    then obtain k where k: "endsWith k ''-meta''" "get st k = Some (Meta m)"
      using eq by blast
    from wf_meta [OF wf k(2) k(1)] obtain c where
      "k = metaKey (rec_id m)" "get st (rec_id m) = Some (Payload c)" by blast
    with k(2) show "m \<in> {m. \<exists>i b. get st i = Some (Payload b) \<and> get st (metaKey i) = Some (Meta m)}"
      by blast
  next
    fix m assume "m \<in> {m. \<exists>i b. get st i = Some (Payload b) \<and> get st (metaKey i) = Some (Meta m)}"
    then obtain j where "get st (metaKey j) = Some (Meta m)" by blast
    then show "m \<in> set ms" using eq endsWith_metaKey by blast
  qed
  with ms show ?thesis by blast
qed

lemma four_saved_eq:
  "four_saved =
     [(''a'', Payload \<lparr>bytes = [1], mime = ''video/webm''\<rparr>),
      (''a-meta'', Meta \<lparr>rec_id = ''a'', rec_name = ''Recording'', rec_timestamp = 300,
                          rec_duration = 0, rec_size = 1\<rparr>),
      (''b-meta'', Payload \<lparr>bytes = [2], mime = ''video/webm''\<rparr>),
      (''b-meta-meta'', Meta \<lparr>rec_id = ''b-meta'', rec_name = ''Recording'', rec_timestamp = 200,
                          rec_duration = 0, rec_size = 1\<rparr>),
      (''c'', Payload \<lparr>bytes = [3], mime = ''video/webm''\<rparr>),
      (''c-meta'', Meta \<lparr>rec_id = ''c'', rec_name = ''Recording'', rec_timestamp = 100,
                          rec_duration = 0, rec_size = 1\<rparr>),
      (''d'', Payload \<lparr>bytes = [4], mime = ''video/webm''\<rparr>),
      (''d-meta'', Meta \<lparr>rec_id = ''d'', rec_name = ''Recording'', rec_timestamp = 400,
                          rec_duration = 0, rec_size = 1\<rparr>)]"
  by (simp add: four_saved_def saveVideo_def metaKey_def name_or_default_def blob_size_def Let_def)

lemma update_absent_key:
  assumes "get st (metaKey i) = None"
  shows "updateRecordingMeta Healthy i updates st = (Inr None, st) \<and>
         snd (updateRecordingMeta env i updates st) = st"
  using assms by (cases env) (simp_all add: updateRecordingMeta_def)

section \<open>Properties of the controller\<close>

subsection \<open>The stop handler\<close>

lemmas controller_defs =
  startRecording_def initial_def browser_def second_elapses_def ondataavailable_def
  stopRecording_def stop_if_recording_def autoStop_callback_def onended_def
  MAX_RECORDING_DURATION_def select_mimeType_def generateRecordingId_def blob_size_def
  Let_def

lemma five_seconds_eq:
  "five_seconds =
     \<lparr>isRecording = True, recordings = [], selectedRecording = None, videoUrl = None,
      error = None, recordingTime = 5, includeMic = True,
      mediaRecorderRef = Some \<lparr>state = inactive, mimeType = ''video/webm'', mixed_audio = True,
                                closure_recordingTime = 0, stop_pending = True\<rparr>,
      streamRef = Some \<lparr>tracks_live = True, audio_tracks = 1\<rparr>,
      micStreamRef = Some \<lparr>tracks_live = True, audio_tracks = 1\<rparr>,
      audioContextRef = Some True,
      chunksRef = [\<lparr>bytes = [1, 2], mime = ''video/webm''\<rparr>, \<lparr>bytes = [3], mime = ''video/webm''\<rparr>],
      timerRef = Some (Armed 1000), autoStopTimerRef = Some (Armed 175000),
      currentRecordingIdRef = Some ''recording-1000'', db = []\<rparr>"
  by (simp add: five_seconds_def controller_defs)

lemma onstop_rejects:
  assumes "env_save \<noteq> Healthy" and "currentRecordingIdRef s = Some i" and "i \<noteq> []"
  shows "fst (onstop r env_save env_list env_get now defaultName s) \<noteq> None \<and>
         snd (onstop r env_save env_list env_get now defaultName s) = s"
  using assms by (cases env_save) (simp_all add: onstop_def saveVideo_def Let_def)

lemma refs_loadRecordings:
  "streamRef (loadRecordings env s) = streamRef s"
  "micStreamRef (loadRecordings env s) = micStreamRef s"
  "audioContextRef (loadRecordings env s) = audioContextRef s"
  "timerRef (loadRecordings env s) = timerRef s"
  "autoStopTimerRef (loadRecordings env s) = autoStopTimerRef s"
  "db (loadRecordings env s) = db s"
  by (simp_all add: loadRecordings_def split: sum.splits)

lemma refs_playRecording:
  "streamRef (playRecording env i s) = streamRef s"
  "micStreamRef (playRecording env i s) = micStreamRef s"
  "audioContextRef (playRecording env i s) = audioContextRef s"
  "timerRef (playRecording env i s) = timerRef s"
  "autoStopTimerRef (playRecording env i s) = autoStopTimerRef s"
  "db (playRecording env i s) = db s"
  by (simp_all add: playRecording_def split: sum.splits option.splits stored.splits)

lemma onstop_completes:
  "fst (onstop r Healthy env_list env_get now defaultName s) = None \<and>
   streamRef (snd (onstop r Healthy env_list env_get now defaultName s)) =
     map_option (\<lambda>m. m\<lparr>tracks_live := False\<rparr>) (streamRef s) \<and>
   micStreamRef (snd (onstop r Healthy env_list env_get now defaultName s)) =
     map_option (\<lambda>m. m\<lparr>tracks_live := False\<rparr>) (micStreamRef s) \<and>
   audioContextRef (snd (onstop r Healthy env_list env_get now defaultName s)) =
     map_option (\<lambda>running. False) (audioContextRef s) \<and>
   timerRef (snd (onstop r Healthy env_list env_get now defaultName s)) =
     map_option (\<lambda>t. Cleared) (timerRef s) \<and>
   autoStopTimerRef (snd (onstop r Healthy env_list env_get now defaultName s)) =
     map_option (\<lambda>t. Cleared) (autoStopTimerRef s) \<and>
   isRecording (snd (onstop r Healthy env_list env_get now defaultName s)) = False \<and>
   recordingTime (snd (onstop r Healthy env_list env_get now defaultName s)) = 0"
  by (simp add: onstop_def saveVideo_def Let_def cleanup_def refs_loadRecordings
      refs_playRecording split: option.splits)

lemma step_keeps_closure:
  assumes "mediaRecorderRef s = Some r"
  shows "\<exists>r'. mediaRecorderRef (step e s) = Some r' \<and>
           closure_recordingTime r' = closure_recordingTime r \<and> mimeType r' = mimeType r"
  using assms
  by (cases e)
     (auto simp: second_elapses_def ondataavailable_def stopRecording_def onended_def
        autoStop_callback_def stop_if_recording_def Let_def
        split: option.splits timer.splits)

lemma run_keeps_closure:
  assumes "mediaRecorderRef s = Some r"
  shows "\<exists>r'. mediaRecorderRef (run evs s) = Some r' \<and>
           closure_recordingTime r' = closure_recordingTime r \<and> mimeType r' = mimeType r"
  using assms
proof (induction evs arbitrary: s r)
  case Nil
  then show ?case by simp
next
  case (Cons e evs)
  from step_keeps_closure [OF Cons.prems] obtain r1 where r1:
    "mediaRecorderRef (step e s) = Some r1" "closure_recordingTime r1 = closure_recordingTime r"
    "mimeType r1 = mimeType r" by blast
  from Cons.IH [OF r1(1)] r1(2,3) show ?case by simp
qed

lemma step_keeps_id:
  "currentRecordingIdRef (step e s) = currentRecordingIdRef s \<and> db (step e s) = db s"
  by (cases e)
     (auto simp: second_elapses_def ondataavailable_def stopRecording_def onended_def
        autoStop_callback_def stop_if_recording_def Let_def
        split: option.splits timer.splits)

lemma run_keeps_id:
  "currentRecordingIdRef (run evs s) = currentRecordingIdRef s \<and> db (run evs s) = db s"
  by (induction evs arbitrary: s) (simp_all add: step_keeps_id)

lemma startRecording_closure:
  assumes "getDisplayMedia p = Inr screenStream"
  shows "\<exists>r. mediaRecorderRef (startRecording p now s) = Some r \<and>
           closure_recordingTime r = recordingTime s"
    and "currentRecordingIdRef (startRecording p now s) = Some (generateRecordingId now)"
  using assms
  by (simp_all add: startRecording_def Let_def split: sum.splits prod.splits)

lemma onstop_saves_closure_value:
  assumes "currentRecordingIdRef s = Some i" and "i \<noteq> []"
  shows "\<exists>m. get (db (snd (onstop r Healthy env_list env_get now defaultName s))) (metaKey i) = Some (Meta m) \<and>
           rec_duration m = closure_recordingTime r"
  using assms
  by (simp add: onstop_def saveVideo_def Let_def cleanup_def refs_loadRecordings
      refs_playRecording get_put)

lemma saved_duration_is_start_value:
  assumes "getDisplayMedia p = Inr screenStream"
    and "phase_of (run evs (startRecording p start s)) = Finalizing"
  shows "\<exists>m. get (db (snd (dispatch_stop Healthy env_list env_get now defaultName
                             (run evs (startRecording p start s)))))
              (metaKey (generateRecordingId start)) = Some (Meta m) \<and>
           rec_duration m = recordingTime s"
proof -
  let ?s = "run evs (startRecording p start s)"
  from startRecording_closure(1) [OF assms(1)] obtain r0 where
    "mediaRecorderRef (startRecording p start s) = Some r0" "closure_recordingTime r0 = recordingTime s"
    by blast
  with run_keeps_closure obtain r where r: "mediaRecorderRef ?s = Some r"
    "closure_recordingTime r = recordingTime s" by metis
  with assms(2) have pending: "stop_pending r"
    by (simp add: phase_of_def split: if_splits)
  have i: "currentRecordingIdRef (?s\<lparr>mediaRecorderRef := Some (r\<lparr>stop_pending := False\<rparr>)\<rparr>) =
             Some (generateRecordingId start)"
    using startRecording_closure(2) [OF assms(1)] by (simp add: run_keeps_id)
  have ne: "generateRecordingId start \<noteq> []" by (simp add: generateRecordingId_def)
  from onstop_saves_closure_value [OF i ne, of r] r pending
  show ?thesis by (simp add: dispatch_stop_def)
qed

subsection \<open>The auto-stop timeout\<close>

lemma phase_stop_if_recording:
  "phase_of s \<noteq> Idle \<Longrightarrow> phase_of (stop_if_recording s) = Finalizing"
  by (auto simp: phase_of_def stop_if_recording_def split: option.splits if_splits)

lemma phase_ondataavailable: "phase_of (ondataavailable d s) = phase_of s"
  by (simp add: phase_of_def ondataavailable_def)

lemma timer_ondataavailable: "autoStopTimerRef (ondataavailable d s) = autoStopTimerRef s"
  by (simp add: ondataavailable_def)

lemma finalizing_second: "phase_of s = Finalizing \<Longrightarrow> phase_of (second_elapses s) = Finalizing"
  by (auto simp: phase_of_def second_elapses_def autoStop_callback_def stop_if_recording_def
      Let_def split: option.splits timer.splits if_splits)

lemma finalizing_step: "phase_of s = Finalizing \<Longrightarrow> phase_of (step e s) = Finalizing"
  by (cases e)
     (simp_all add: finalizing_second phase_ondataavailable stopRecording_def onended_def
        phase_stop_if_recording)

lemma finalizing_run: "phase_of s = Finalizing \<Longrightarrow> phase_of (run evs s) = Finalizing"
  by (induction evs arbitrary: s) (simp_all add: finalizing_step)

lemma armed_second:
  assumes "armed_at n s"
  shows "if n = 179 then phase_of (second_elapses s) = Finalizing else armed_at (Suc n) (second_elapses s)"
proof -
  from assms obtain r where r: "mediaRecorderRef s = Some r" "state r = recording"
    and n: "n < 180"
    and t: "autoStopTimerRef s = Some (Armed (MAX_RECORDING_DURATION - 1000 * n))"
    by (auto simp: armed_at_def phase_of_def split: option.splits if_splits)
  show ?thesis
  proof (cases "n = 179")
    case True
    with r t show ?thesis
      by (auto simp: second_elapses_def autoStop_callback_def stop_if_recording_def phase_of_def
          MAX_RECORDING_DURATION_def Let_def split: option.splits timer.splits)
  next
    case False
    with n have "n < 179" by simp
    then have "\<not> MAX_RECORDING_DURATION - 1000 * n \<le> 1000"
      and "MAX_RECORDING_DURATION - 1000 * n - 1000 = MAX_RECORDING_DURATION - 1000 * Suc n"
      by (simp_all add: MAX_RECORDING_DURATION_def)
    with r t False \<open>n < 179\<close> show ?thesis
      by (auto simp: second_elapses_def phase_of_def armed_at_def Let_def
          split: option.splits timer.splits)
  qed
qed

lemma armed_data: "armed_at n s \<Longrightarrow> armed_at n (ondataavailable d s)"
  by (simp add: armed_at_def phase_ondataavailable timer_ondataavailable)

lemma armed_stop: "armed_at n s \<Longrightarrow> phase_of (stop_if_recording s) = Finalizing"
  by (simp add: armed_at_def phase_stop_if_recording)

lemma run_reaches_finalizing:
  assumes "armed_at n s" and "180 \<le> n + count_list evs Second"
  shows "phase_of (run evs s) = Finalizing"
  using assms
proof (induction evs arbitrary: n s)
  case Nil
  then show ?case by (simp add: armed_at_def)
next
  case (Cons e evs)
  show ?case
  proof (cases e)
    case Second
    show ?thesis
    proof (cases "n = 179")
      case True
      with armed_second [OF Cons.prems(1)] have "phase_of (second_elapses s) = Finalizing" by simp
      then show ?thesis using Second by (simp add: finalizing_run)
    next
      case False
      with armed_second [OF Cons.prems(1)] have "armed_at (Suc n) (second_elapses s)" by simp
      moreover have "180 \<le> Suc n + count_list evs Second" using Cons.prems(2) Second by simp
      ultimately show ?thesis using Cons.IH Second by simp
    qed
  next
    case (Data d)
    with Cons.prems have "armed_at n (ondataavailable d s)" "180 \<le> n + count_list evs Second"
      by (simp_all add: armed_data)
    then show ?thesis using Cons.IH Data by simp
  next
    case ManualStop
    then show ?thesis
      using armed_stop [OF Cons.prems(1)] by (simp add: stopRecording_def finalizing_run)
  next
    case ShareEnded
    then show ?thesis
      using armed_stop [OF Cons.prems(1)] by (simp add: onended_def finalizing_run)
  qed
qed

lemma run_keeps_recording:
  assumes "armed_at n s" and "n + count_list evs Second < 180" and "\<forall>e \<in> set evs. \<not> is_stop e"
  shows "armed_at (n + count_list evs Second) (run evs s)"
  using assms
proof (induction evs arbitrary: n s)
  case Nil
  then show ?case by simp
next
  case (Cons e evs)
  show ?case
  proof (cases e)
    case Second
    with Cons.prems(2) have "n \<noteq> 179" by simp
    with armed_second [OF Cons.prems(1)] have "armed_at (Suc n) (second_elapses s)" by simp
    moreover have "Suc n + count_list evs Second < 180" using Cons.prems(2) Second by simp
    moreover have "\<forall>e \<in> set evs. \<not> is_stop e" using Cons.prems(3) by simp
    ultimately have "armed_at (Suc n + count_list evs Second) (run evs (second_elapses s))"
      by (rule Cons.IH)
    then show ?thesis using Second by simp
  next
    case (Data d)
    have "armed_at n (ondataavailable d s)" using Cons.prems(1) by (rule armed_data)
    moreover have "n + count_list evs Second < 180" using Cons.prems(2) Data by simp
    moreover have "\<forall>e \<in> set evs. \<not> is_stop e" using Cons.prems(3) by simp
    ultimately have "armed_at (n + count_list evs Second) (run evs (ondataavailable d s))"
      by (rule Cons.IH)
    then show ?thesis using Data by simp
  next
    case ManualStop
    with Cons.prems(3) show ?thesis by (simp add: is_stop_def)
  next
    case ShareEnded
    with Cons.prems(3) show ?thesis by (simp add: is_stop_def)
  qed
qed

lemma armed_startRecording:
  assumes "getDisplayMedia p = Inr screenStream"
  shows "armed_at 0 (startRecording p now s)"
  using assms
  by (simp add: startRecording_def armed_at_def phase_of_def Let_def
      split: sum.splits prod.splits)

lemma count_list_replicate: "count_list (replicate n x) x = n"
  by (induction n) simp_all

section \<open>Claims\<close>

text \<open>
  The pairing of payload and metadata does not hold for arbitrary ids. After
  \<open>saveVideo('a', ...)\<close> the call \<open>deleteVideo('a-meta')\<close> deletes the keys \<open>a-meta\<close> and
  \<open>a-meta-meta\<close>: the payload under \<open>a\<close> is left without its metadata record.
\<close>

theorem pairing_counterexample: "reachable any_id stray_store \<and> \<not> paired stray_store"
proof
  show "reachable any_id stray_store"
    unfolding stray_store_def by (intro reachable.intros) (simp_all add: any_id_def)
  have "get stray_store ''a'' = Some (Payload \<lparr>bytes = [1, 2, 3], mime = ''video/webm''\<rparr>)"
    by (simp add: stray_store_def snd_deleteVideo snd_saveVideo metaKey_def)
  moreover have "get stray_store (metaKey ''a'') = None"
    by (simp add: stray_store_def snd_deleteVideo snd_saveVideo metaKey_def)
  ultimately show "\<not> paired stray_store"
    unfolding paired_def by (metis option.distinct(1))
qed

text \<open>
  C1 (amended). When no id handed to \<open>saveVideo\<close>, \<open>updateRecordingMeta\<close> or
  \<open>deleteVideo\<close> ends in \<open>-meta\<close>, every store state reached from the empty store,
  whether the transactions commit or fail, holds a payload under \<open>id\<close> exactly when it
  holds a metadata record under \<open>id-meta\<close>; that record then carries this \<open>id\<close> and the
  byte length of that payload.
\<close>

theorem pairing_invariant:
  assumes "reachable plain_id st"
  shows "paired st \<and>
         (\<forall>i b m. get st i = Some (Payload b) \<longrightarrow> get st (metaKey i) = Some (Meta m) \<longrightarrow>
            rec_id m = i \<and> rec_size m = blob_size b)"
proof
  have wf: "well_formed st" using assms by (rule well_formed_reachable)
  then show "paired st" by (rule paired_well_formed)
  show "\<forall>i b m. get st i = Some (Payload b) \<longrightarrow> get st (metaKey i) = Some (Meta m) \<longrightarrow>
            rec_id m = i \<and> rec_size m = blob_size b"
  proof (intro allI impI)
    fix i b m
    assume b: "get st i = Some (Payload b)" and m: "get st (metaKey i) = Some (Meta m)"
    from wf_meta [OF wf m endsWith_metaKey]
    obtain c where c: "metaKey i = metaKey (rec_id m)" "get st (rec_id m) = Some (Payload c)"
      "rec_size m = blob_size c" by blast
    from c(1) have "rec_id m = i" by (simp add: metaKey_inj)
    with b c show "rec_id m = i \<and> rec_size m = blob_size b" by simp
  qed
qed

theorem pairing_invariant_witness:
  "reachable plain_id two_saved \<and> paired two_saved \<and>
   get two_saved ''r1'' = Some (Payload \<lparr>bytes = [1, 2, 3], mime = ''video/webm''\<rparr>)"
  using pairing_invariant [OF reachable_two_saved] reachable_two_saved
  by (simp add: two_saved_eq get_def)

text \<open>
  C2. After a successful \<open>saveVideo(id, blob, duration)\<close>, on any store and for any id,
  \<open>getVideo(id)\<close> returns the very blob that was saved and \<open>getAllRecordings()\<close> contains
  the metadata record that \<open>saveVideo\<close> returned, whose \<open>id\<close> is the saved id and whose
  \<open>size\<close> is the number of bytes of the blob.
\<close>

theorem save_roundtrip:
  assumes "saveVideo env now defaultName i b duration nm st = (Inr meta, st')"
  shows "getVideo Healthy i st' = Inr (Some (Payload b)) \<and>
         (\<exists>rs. getAllRecordings Healthy st' = Inr rs \<and> Meta meta \<in> set rs) \<and>
         rec_id meta = i \<and> rec_size meta = length (bytes b) \<and>
         rec_timestamp meta = now \<and> rec_duration meta = duration"
proof -
  from assms have env: "env = Healthy"
    by (cases env) (simp_all add: saveVideo_def Let_def)
  from assms env have meta: "meta = \<lparr>rec_id = i, rec_name = name_or_default nm defaultName,
                  rec_timestamp = now, rec_duration = duration, rec_size = blob_size b\<rparr>"
    by (simp add: saveVideo_def Let_def)
  have st': "st' = snd (saveVideo env now defaultName i b duration nm st)"
    using assms by simp
  have g: "get st' = (get st)(i \<mapsto> Payload b, metaKey i \<mapsto> Meta meta)"
    unfolding st' using env meta by (simp add: snd_saveVideo)
  have "get st' i = Some (Payload b)"
    by (simp add: g metaKey_neq [symmetric])
  then have 1: "getVideo Healthy i st' = Inr (Some (Payload b))"
    by (simp add: getVideo_def)
  have "get st' (metaKey i) = Some (Meta meta)" by (simp add: g)
  then have "Meta meta \<in> set (fetched st')"
    unfolding set_fetched using endsWith_metaKey by blast
  then have 2: "\<exists>rs. getAllRecordings Healthy st' = Inr rs \<and> Meta meta \<in> set rs"
    by (simp add: getAllRecordings_def set_array_sort)
  from 1 2 meta show ?thesis by (simp add: blob_size_def)
qed

theorem save_roundtrip_witness:
  "saveVideo Healthy 100 ''Recording'' ''r1'' \<lparr>bytes = [1, 2, 3], mime = ''video/webm''\<rparr> 0 None [] =
     (Inr \<lparr>rec_id = ''r1'', rec_name = ''Recording'', rec_timestamp = 100,
            rec_duration = 0, rec_size = 3\<rparr>,
      [(''r1'', Payload \<lparr>bytes = [1, 2, 3], mime = ''video/webm''\<rparr>),
       (''r1-meta'', Meta \<lparr>rec_id = ''r1'', rec_name = ''Recording'', rec_timestamp = 100,
                           rec_duration = 0, rec_size = 3\<rparr>)]) \<and>
   getVideo Healthy ''r1''
      [(''r1'', Payload \<lparr>bytes = [1, 2, 3], mime = ''video/webm''\<rparr>),
       (''r1-meta'', Meta \<lparr>rec_id = ''r1'', rec_name = ''Recording'', rec_timestamp = 100,
                           rec_duration = 0, rec_size = 3\<rparr>)]
     = Inr (Some (Payload \<lparr>bytes = [1, 2, 3], mime = ''video/webm''\<rparr>))"
proof -
  have h: "saveVideo Healthy 100 ''Recording'' ''r1'' \<lparr>bytes = [1, 2, 3], mime = ''video/webm''\<rparr> 0 None [] =
     (Inr \<lparr>rec_id = ''r1'', rec_name = ''Recording'', rec_timestamp = 100,
            rec_duration = 0, rec_size = 3\<rparr>,
      [(''r1'', Payload \<lparr>bytes = [1, 2, 3], mime = ''video/webm''\<rparr>),
       (''r1-meta'', Meta \<lparr>rec_id = ''r1'', rec_name = ''Recording'', rec_timestamp = 100,
                           rec_duration = 0, rec_size = 3\<rparr>)])"
    by (simp add: saveVideo_def metaKey_def name_or_default_def blob_size_def Let_def)
  from save_roundtrip [OF h] h show ?thesis by simp
qed

text \<open>
  Newest-first order fails for arbitrary ids. After the four saves of \<open>four_saved\<close> the
  metadata records have the distinct timestamps 300, 200, 100 and 400, the payload of
  \<open>b-meta\<close> is read among them, and the listing carries the timestamps in the order
  300, 400, 200, 100.
\<close>

theorem newest_first_counterexample:
  "reachable any_id four_saved \<and> distinct (stored_timestamps four_saved) \<and>
   getAllRecordings Healthy four_saved =
     Inr [Meta \<lparr>rec_id = ''a'', rec_name = ''Recording'', rec_timestamp = 300,
                 rec_duration = 0, rec_size = 1\<rparr>,
          Payload \<lparr>bytes = [2], mime = ''video/webm''\<rparr>,
          Meta \<lparr>rec_id = ''d'', rec_name = ''Recording'', rec_timestamp = 400,
                 rec_duration = 0, rec_size = 1\<rparr>,
          Meta \<lparr>rec_id = ''b-meta'', rec_name = ''Recording'', rec_timestamp = 200,
                 rec_duration = 0, rec_size = 1\<rparr>,
          Meta \<lparr>rec_id = ''c'', rec_name = ''Recording'', rec_timestamp = 100,
                 rec_duration = 0, rec_size = 1\<rparr>] \<and>
   \<not> descending [300, 400, 200, 100]"
proof -
  have "reachable any_id four_saved"
    unfolding four_saved_def by (intro reachable.intros) (simp_all add: any_id_def)
  moreover have "distinct (stored_timestamps four_saved)"
    by (simp add: four_saved_eq stored_timestamps_def listed_timestamps_def)
  moreover have "fetched four_saved =
     [Meta \<lparr>rec_id = ''a'', rec_name = ''Recording'', rec_timestamp = 300,
                 rec_duration = 0, rec_size = 1\<rparr>,
      Payload \<lparr>bytes = [2], mime = ''video/webm''\<rparr>,
      Meta \<lparr>rec_id = ''b-meta'', rec_name = ''Recording'', rec_timestamp = 200,
                 rec_duration = 0, rec_size = 1\<rparr>,
      Meta \<lparr>rec_id = ''c'', rec_name = ''Recording'', rec_timestamp = 100,
                 rec_duration = 0, rec_size = 1\<rparr>,
      Meta \<lparr>rec_id = ''d'', rec_name = ''Recording'', rec_timestamp = 400,
                 rec_duration = 0, rec_size = 1\<rparr>]"
    by (simp add: four_saved_eq fetched_def metaKeys_def getAllKeys_def endsWith_def get_def
       )
  ultimately show ?thesis
    by (simp add: getAllRecordings_def compareFn_def)
qed

text \<open>
  C3 (amended). When no id handed to \<open>saveVideo\<close>, \<open>updateRecordingMeta\<close> or
  \<open>deleteVideo\<close> ends in \<open>-meta\<close> and the metadata records in the store have pairwise
  distinct timestamps, \<open>getAllRecordings()\<close> returns exactly the metadata records of the
  stored payloads, each once, every timestamp strictly greater than all that follow it.
\<close>

theorem listing_newest_first:
  assumes "reachable plain_id st" and "distinct (stored_timestamps st)"
  shows "\<exists>rs. getAllRecordings Healthy st = Inr (map Meta rs) \<and>
           set rs = {m. \<exists>i b. get st i = Some (Payload b) \<and> get st (metaKey i) = Some (Meta m)} \<and>
           distinct rs \<and>
           sorted_wrt (\<lambda>a b. rec_timestamp b < rec_timestamp a) rs"
proof -
  have wf: "well_formed st" using assms(1) by (rule well_formed_reachable)
  from fetched_metas [OF wf] obtain ms where ms: "fetched st = map Meta ms"
    "set ms = {m. \<exists>i b. get st i = Some (Payload b) \<and> get st (metaKey i) = Some (Meta m)}"
    by blast
  have "fetched st = map snd (filter (\<lambda>kv. endsWith (fst kv) ''-meta'') st)"
    using keys_distinct [OF assms(1)] by (rule fetched_entries)
  then have "distinct (listed_timestamps (fetched st))"
    using distinct_listed_filter [of st] assms(2) by (simp add: stored_timestamps_def)
  then have "distinct (map rec_timestamp ms)"
    by (simp add: ms(1) listed_timestamps_Meta)
  from array_sort_Meta [OF this] obtain rs where rs: "array_sort (map Meta ms) = map Meta rs"
    "set rs = set ms" "sorted_wrt (\<lambda>a b. rec_timestamp b < rec_timestamp a) rs"
    by blast
  have "getAllRecordings Healthy st = Inr (map Meta rs)"
    by (simp add: getAllRecordings_def ms(1) rs(1))
  with rs(2,3) ms(2) descending_distinct [OF rs(3)] show ?thesis by blast
qed

text \<open>Two recordings saved at the timestamps 100 and 200 are listed in the order 200, 100.\<close>

theorem listing_newest_first_witness:
  "reachable plain_id two_saved \<and> distinct (stored_timestamps two_saved) \<and>
   getAllRecordings Healthy two_saved =
     Inr [Meta \<lparr>rec_id = ''r2'', rec_name = ''Recording'', rec_timestamp = 200,
                 rec_duration = 0, rec_size = 1\<rparr>,
          Meta \<lparr>rec_id = ''r1'', rec_name = ''Recording'', rec_timestamp = 100,
                 rec_duration = 0, rec_size = 3\<rparr>]"
proof -
  have d: "distinct (stored_timestamps two_saved)"
    by (simp add: two_saved_eq stored_timestamps_def listed_timestamps_def)
  from listing_newest_first [OF reachable_two_saved d]
  obtain rs where "getAllRecordings Healthy two_saved = Inr (map Meta rs)" by blast
  then show ?thesis using reachable_two_saved d
    by (simp add: getAllRecordings_def fetched_two_saved compareFn_def)
qed

text \<open>
  C4. A session with microphone is stopped by hand after five seconds and its
  \<open>saveVideo\<close> transaction fails. \<open>onstop\<close> rejects at the \<open>await\<close>; nothing after it
  runs: both streams stay live, the audio context stays open, the interval and the
  auto-stop timeout stay armed, \<open>isRecording\<close> stays true and \<open>recordingTime\<close> stays 5.
  (When the save succeeds, the cleanup is complete: lemma \<open>onstop_completes\<close>.)
\<close>

theorem cleanup_skipped_when_save_fails:
  "dispatch_stop TransactionFails Healthy Healthy 6000 ''Recording'' five_seconds =
     (Some TransactionFailed,
      \<lparr>isRecording = True, recordings = [], selectedRecording = None, videoUrl = None,
      error = None, recordingTime = 5, includeMic = True,
      mediaRecorderRef = Some \<lparr>state = inactive, mimeType = ''video/webm'', mixed_audio = True,
                                closure_recordingTime = 0, stop_pending = False\<rparr>,
      streamRef = Some \<lparr>tracks_live = True, audio_tracks = 1\<rparr>,
      micStreamRef = Some \<lparr>tracks_live = True, audio_tracks = 1\<rparr>,
      audioContextRef = Some True,
      chunksRef = [\<lparr>bytes = [1, 2], mime = ''video/webm''\<rparr>, \<lparr>bytes = [3], mime = ''video/webm''\<rparr>],
      timerRef = Some (Armed 1000), autoStopTimerRef = Some (Armed 175000),
      currentRecordingIdRef = Some ''recording-1000'', db = []\<rparr>)"
  by (simp add: five_seconds_eq dispatch_stop_def onstop_def saveVideo_def Let_def)

text \<open>
  C5. The same session with a healthy store: five seconds were counted, and the metadata
  record written by \<open>onstop\<close> has the duration 0. The handler reads the \<open>recordingTime\<close>
  of the render that created it, which is the value before the recording started
  (lemma \<open>saved_duration_is_start_value\<close>), not the count at the stop.
\<close>

theorem saved_duration_is_stale:
  "recordingTime five_seconds = 5 \<and> phase_of five_seconds = Finalizing \<and>
   db (snd (dispatch_stop Healthy Healthy Healthy 6000 ''Recording'' five_seconds)) =
     [(''recording-1000'', Payload \<lparr>bytes = [1, 2, 3], mime = ''video/webm''\<rparr>),
      (''recording-1000-meta'',
       Meta \<lparr>rec_id = ''recording-1000'', rec_name = ''Recording'', rec_timestamp = 6000,
             rec_duration = 0, rec_size = 3\<rparr>)]"
  by (simp add: five_seconds_eq phase_of_def dispatch_stop_def onstop_def saveVideo_def Let_def
      cleanup_def playRecording_def loadRecordings_def getVideo_def getAllRecordings_def
      metaKey_def name_or_default_def blob_size_def get_def split: prod.splits)

text \<open>
  C6. With timers that fire when due: a successful \<open>startRecording\<close> leaves the session
  in \<open>Recording\<close> with the auto-stop timeout armed at 180 seconds. Whatever events follow
  (seconds, data slices, manual stops, the end of the screen share), once 180 seconds
  have passed the session is in \<open>Finalizing\<close>; and with fewer than 180 seconds passed
  and no stop event among them it is still in \<open>Recording\<close>.
\<close>

theorem auto_stop_within_180_seconds:
  assumes "getDisplayMedia p = Inr screenStream"
  shows "phase_of (startRecording p now s) = Recording \<and>
         autoStopTimerRef (startRecording p now s) = Some (Armed (180 * 1000)) \<and>
         (180 \<le> count_list evs Second \<longrightarrow>
            phase_of (run evs (startRecording p now s)) = Finalizing) \<and>
         (count_list evs Second < 180 \<longrightarrow> (\<forall>e \<in> set evs. \<not> is_stop e) \<longrightarrow>
            phase_of (run evs (startRecording p now s)) = Recording)"
proof -
  have a: "armed_at 0 (startRecording p now s)" using assms by (rule armed_startRecording)
  then have 1: "phase_of (startRecording p now s) = Recording"
    and 2: "autoStopTimerRef (startRecording p now s) = Some (Armed (180 * 1000))"
    by (simp_all add: armed_at_def MAX_RECORDING_DURATION_def)
  have 3: "phase_of (run evs (startRecording p now s)) = Finalizing"
    if "180 \<le> count_list evs Second"
    using run_reaches_finalizing [OF a] that by simp
  have 4: "phase_of (run evs (startRecording p now s)) = Recording"
    if "count_list evs Second < 180" "\<forall>e \<in> set evs. \<not> is_stop e"
    using run_keeps_recording [OF a] that by (simp add: armed_at_def)
  from 1 2 3 4 show ?thesis by blast
qed

theorem auto_stop_within_180_seconds_witness:
  "getDisplayMedia browser = Inr \<lparr>tracks_live = True, audio_tracks = 1\<rparr> \<and>
   180 \<le> count_list (replicate 180 Second) Second \<and>
   phase_of (run (replicate 180 Second) (startRecording browser 1000 initial)) = Finalizing \<and>
   count_list [Second, Second] Second < 180 \<and>
   \<not> is_stop Second \<and>
   phase_of (run [Second, Second] (startRecording browser 1000 initial)) = Recording"
proof -
  have h: "getDisplayMedia browser = Inr \<lparr>tracks_live = True, audio_tracks = 1\<rparr>"
    by (simp add: browser_def)
  have c: "180 \<le> count_list (replicate 180 Second) Second"
    by (simp add: count_list_replicate)
  have d: "count_list [Second, Second] Second < 180" by simp
  have e: "\<forall>e \<in> set [Second, Second]. \<not> is_stop e" by (simp add: is_stop_def)
  have f: "\<not> is_stop Second" by (simp add: is_stop_def)
  from auto_stop_within_180_seconds
         [OF h, where evs = "replicate 180 Second" and now = 1000 and s = initial]
       auto_stop_within_180_seconds
         [OF h, where evs = "[Second, Second]" and now = 1000 and s = initial] h c d e f
  show ?thesis by blast
qed

text \<open>
  An id without a metadata record can still be updated. After \<open>saveVideo('x-meta', ...)\<close>
  no metadata record exists for the id \<open>x\<close>, but the key \<open>x-meta\<close> holds a payload:
  \<open>updateRecordingMeta('x', {name: 'y'})\<close> resolves to the object \<open>{name: 'y'}\<close> and writes
  it over that payload.
\<close>

theorem update_without_record_counterexample:
  "reachable any_id suffix_saved \<and>
   suffix_saved =
     [(''x-meta'', Payload \<lparr>bytes = [1, 2, 3], mime = ''video/webm''\<rparr>),
      (''x-meta-meta'', Meta \<lparr>rec_id = ''x-meta'', rec_name = ''Recording'', rec_timestamp = 100,
                               rec_duration = 0, rec_size = 3\<rparr>)] \<and>
   get suffix_saved (metaKey ''x'') = Some (Payload \<lparr>bytes = [1, 2, 3], mime = ''video/webm''\<rparr>) \<and>
   updateRecordingMeta Healthy ''x'' (Some ''y'') suffix_saved =
     (Inr (Some (Obj (Some ''y''))),
      [(''x-meta'', Obj (Some ''y'')),
       (''x-meta-meta'', Meta \<lparr>rec_id = ''x-meta'', rec_name = ''Recording'', rec_timestamp = 100,
                               rec_duration = 0, rec_size = 3\<rparr>)])"
proof -
  have r: "reachable any_id suffix_saved"
    unfolding suffix_saved_def by (intro reachable.intros) (simp_all add: any_id_def)
  have e: "suffix_saved =
     [(''x-meta'', Payload \<lparr>bytes = [1, 2, 3], mime = ''video/webm''\<rparr>),
      (''x-meta-meta'', Meta \<lparr>rec_id = ''x-meta'', rec_name = ''Recording'', rec_timestamp = 100,
                               rec_duration = 0, rec_size = 3\<rparr>)]"
    by (simp add: suffix_saved_def saveVideo_def metaKey_def name_or_default_def blob_size_def Let_def)
  show ?thesis using r
    by (simp add: e updateRecordingMeta_def get_def metaKey_def Let_def)
qed

text \<open>
  C7 (amended). In a store state reached with ids that do not end in \<open>-meta\<close>, when no
  metadata record is stored under \<open>id-meta\<close>, \<open>updateRecordingMeta(id, updates)\<close> resolves
  to \<open>null\<close> on a healthy platform, and leaves the store as it was on every platform.
\<close>

theorem update_without_record:
  assumes "reachable plain_id st" and "\<not> (\<exists>m. get st (metaKey i) = Some (Meta m))"
  shows "updateRecordingMeta Healthy i updates st = (Inr None, st) \<and>
         snd (updateRecordingMeta env i updates st) = st"
proof -
  have wf: "well_formed st" using assms(1) by (rule well_formed_reachable)
  have "get st (metaKey i) = None"
  proof (cases "get st (metaKey i)")
    case None
    then show ?thesis .
  next
    case (Some v)
    from wf_meta [OF wf Some endsWith_metaKey] assms(2) Some show ?thesis by blast
  qed
  then show ?thesis by (rule update_absent_key)
qed

theorem update_without_record_witness:
  "reachable plain_id two_saved \<and> get two_saved (metaKey ''r3'') = None \<and>
   updateRecordingMeta Healthy ''r3'' (Some ''x'') two_saved = (Inr None, two_saved)"
proof -
  have h: "get two_saved (metaKey ''r3'') = None"
    by (simp add: two_saved_eq get_def metaKey_def)
  then have n: "\<not> (\<exists>m. get two_saved (metaKey ''r3'') = Some (Meta m))" by simp
  from update_without_record [OF reachable_two_saved n] h reachable_two_saved
  show ?thesis by simp
qed

text \<open>
  C8. When a metadata record is stored under \<open>id-meta\<close>,
  \<open>updateRecordingMeta(id, {name})\<close> returns that record with the new name and stores it
  under the same key; every other key, the payload under \<open>id\<close> among them, keeps its
  value, and \<open>id\<close>, \<open>timestamp\<close>, \<open>duration\<close> and \<open>size\<close> of the record are unchanged.
\<close>

theorem update_changes_name_only:
  assumes "get st (metaKey i) = Some (Meta m)"
  shows "\<exists>st'. updateRecordingMeta Healthy i (Some n) st = (Inr (Some (Meta (m\<lparr>rec_name := n\<rparr>))), st') \<and>
           get st' (metaKey i) = Some (Meta (m\<lparr>rec_name := n\<rparr>)) \<and>
           (\<forall>k. k \<noteq> metaKey i \<longrightarrow> get st' k = get st k) \<and>
           get st' i = get st i \<and>
           rec_name (m\<lparr>rec_name := n\<rparr>) = n \<and>
           rec_id (m\<lparr>rec_name := n\<rparr>) = rec_id m \<and>
           rec_timestamp (m\<lparr>rec_name := n\<rparr>) = rec_timestamp m \<and>
           rec_duration (m\<lparr>rec_name := n\<rparr>) = rec_duration m \<and>
           rec_size (m\<lparr>rec_name := n\<rparr>) = rec_size m"
  using assms
  by (simp add: updateRecordingMeta_def Let_def get_put metaKey_neq [symmetric])

theorem update_changes_name_only_witness:
  "get two_saved (metaKey ''r1'') = Some (Meta \<lparr>rec_id = ''r1'', rec_name = ''Recording'', rec_timestamp = 100,
                           rec_duration = 0, rec_size = 3\<rparr>) \<and>
   fst (updateRecordingMeta Healthy ''r1'' (Some ''x'') two_saved) =
     Inr (Some (Meta \<lparr>rec_id = ''r1'', rec_name = ''x'', rec_timestamp = 100,
                           rec_duration = 0, rec_size = 3\<rparr>))"
proof -
  have h: "get two_saved (metaKey ''r1'') = Some (Meta \<lparr>rec_id = ''r1'', rec_name = ''Recording'', rec_timestamp = 100,
                           rec_duration = 0, rec_size = 3\<rparr>)"
    by (simp add: two_saved_eq get_def metaKey_def)
  from update_changes_name_only [OF h, of "''x''"] h show ?thesis by auto
qed

text \<open>
  C9. In every store state reached by the operations of the store, with any ids,
  \<open>deleteVideo(id)\<close> succeeds whether or not the two keys are present; afterwards
  \<open>getVideo(id)\<close> is \<open>null\<close>, no metadata record listed by \<open>getAllRecordings()\<close> has this
  \<open>id\<close>, and deleting again succeeds and changes nothing.
\<close>

theorem delete_removes:
  assumes "reachable any_id st"
  shows "\<exists>st'. deleteVideo Healthy i st = (Inr (), st') \<and>
           getVideo Healthy i st' = Inr None \<and>
           (\<exists>rs. getAllRecordings Healthy st' = Inr rs \<and> (\<forall>m. Meta m \<in> set rs \<longrightarrow> rec_id m \<noteq> i)) \<and>
           deleteVideo Healthy i st' = (Inr (), st')"
proof -
  let ?st' = "delete (metaKey i) (delete i st)"
  have k: "keyed st" using assms by (rule keyed_reachable)
  have g: "get ?st' = (get st)(i := None, metaKey i := None)"
    by (simp add: get_delete)
  have 1: "getVideo Healthy i ?st' = Inr None"
    by (simp add: getVideo_def g)
  have 2: "rec_id m \<noteq> i" if "Meta m \<in> set (fetched ?st')" for m
  proof
    assume i: "rec_id m = i"
    from that obtain k' where k': "get ?st' k' = Some (Meta m)"
      unfolding set_fetched by blast
    then have "get st k' = Some (Meta m)" and ne: "k' \<noteq> metaKey i"
      by (auto simp: g split: if_splits)
    with k have "k' = metaKey (rec_id m)" unfolding keyed_def by blast
    with i ne show False by simp
  qed
  have 3: "deleteVideo Healthy i ?st' = (Inr (), ?st')"
    by (simp add: deleteVideo_def delete_twice)
  have "deleteVideo Healthy i st = (Inr (), ?st')" by (simp add: deleteVideo_def)
  with 1 2 3 show ?thesis by (simp add: getAllRecordings_def set_array_sort)
qed

theorem delete_removes_witness:
  "reachable any_id two_saved \<and>
   deleteVideo Healthy ''r1'' two_saved =
     (Inr (), [(''r2'', Payload \<lparr>bytes = [7], mime = ''video/webm''\<rparr>),
      (''r2-meta'', Meta \<lparr>rec_id = ''r2'', rec_name = ''Recording'', rec_timestamp = 200,
                           rec_duration = 0, rec_size = 1\<rparr>)])"
proof -
  have h: "reachable any_id two_saved"
    unfolding two_saved_def by (intro reachable.intros) (simp_all add: any_id_def)
  from delete_removes [OF h, of "''r1''"] h show ?thesis
    by (simp add: two_saved_eq deleteVideo_def delete_def metaKey_def)
qed

text \<open>
  C10. \<open>getAllRecordings()\<close> returns the values under exactly the keys that end in
  \<open>-meta\<close>. Saving under an id that itself ends in \<open>-meta\<close> therefore makes it return
  the raw payload among the records. When no id ends in \<open>-meta\<close>, it returns exactly the
  metadata records of the stored payloads.
\<close>

theorem suffix_classification:
  "(\<exists>rs. getAllRecordings Healthy st = Inr rs \<and>
          set rs = {v. \<exists>k. endsWith k ''-meta'' \<and> get st k = Some v}) \<and>
   (endsWith i ''-meta'' \<longrightarrow>
      (\<exists>rs. getAllRecordings Healthy (snd (saveVideo Healthy now defaultName i b duration nm st)) = Inr rs \<and>
            Payload b \<in> set rs)) \<and>
   (reachable plain_id st \<longrightarrow>
      (\<exists>ms. getAllRecordings Healthy st = Inr (map Meta ms) \<and>
            set ms = {m. \<exists>j c. get st j = Some (Payload c) \<and> get st (metaKey j) = Some (Meta m)}))"
proof (intro conjI impI)
  show "\<exists>rs. getAllRecordings Healthy st = Inr rs \<and>
          set rs = {v. \<exists>k. endsWith k ''-meta'' \<and> get st k = Some v}"
    by (simp add: getAllRecordings_def set_array_sort set_fetched)
next
  assume e: "endsWith i ''-meta''"
  let ?st' = "snd (saveVideo Healthy now defaultName i b duration nm st)"
  have "get ?st' i = Some (Payload b)"
    by (simp add: snd_saveVideo metaKey_neq [symmetric])
  with e have "Payload b \<in> set (fetched ?st')"
    unfolding set_fetched by blast
  then show "\<exists>rs. getAllRecordings Healthy ?st' = Inr rs \<and> Payload b \<in> set rs"
    by (simp add: getAllRecordings_def set_array_sort)
next
  assume r: "reachable plain_id st"
  then have wf: "well_formed st" by (rule well_formed_reachable)
  have sub: "set (array_sort (fetched st)) \<subseteq> range Meta"
    unfolding set_array_sort set_fetched using wf_meta [OF wf] by blast
  then obtain ms where ms: "array_sort (fetched st) = map Meta ms"
    by (metis ex_map_conv subset_iff rangeE)
  have "Meta ` set ms = {v. \<exists>k. endsWith k ''-meta'' \<and> get st k = Some v}"
    using ms set_array_sort [of "fetched st"] set_fetched [of st] by simp
  then have eq: "m \<in> set ms \<longleftrightarrow> (\<exists>k. endsWith k ''-meta'' \<and> get st k = Some (Meta m))" for m
    by (auto simp: image_iff set_eq_iff)
  have "set ms = {m. \<exists>j c. get st j = Some (Payload c) \<and> get st (metaKey j) = Some (Meta m)}"
  proof (intro set_eqI iffI)
    fix m assume "m \<in> set ms"
    then obtain k where k: "endsWith k ''-meta''" "get st k = Some (Meta m)"
      using eq by blast
    from wf_meta [OF wf k(2) k(1)] obtain c where
      "k = metaKey (rec_id m)" "get st (rec_id m) = Some (Payload c)" by blast
    with k(2) show "m \<in> {m. \<exists>j c. get st j = Some (Payload c) \<and> get st (metaKey j) = Some (Meta m)}"
      by blast
  next
    fix m assume "m \<in> {m. \<exists>j c. get st j = Some (Payload c) \<and> get st (metaKey j) = Some (Meta m)}"
    then obtain j where "get st (metaKey j) = Some (Meta m)" by blast
    then show "m \<in> set ms" using eq endsWith_metaKey by blast
  qed
  with ms show "\<exists>ms. getAllRecordings Healthy st = Inr (map Meta ms) \<and>
            set ms = {m. \<exists>j c. get st j = Some (Payload c) \<and> get st (metaKey j) = Some (Meta m)}"
    by (intro exI [of _ ms]) (simp add: getAllRecordings_def)
qed

theorem suffix_classification_witness:
  "endsWith ''x-meta'' ''-meta'' \<and> reachable plain_id two_saved \<and>
   (\<exists>rs. getAllRecordings Healthy
       (snd (saveVideo Healthy 300 ''Recording'' ''x-meta'' \<lparr>bytes = [9, 9], mime = ''video/webm''\<rparr> 0 None two_saved)) = Inr rs \<and>
         Payload \<lparr>bytes = [9, 9], mime = ''video/webm''\<rparr> \<in> set rs)"
proof -
  have e: "endsWith ''x-meta'' ''-meta''" by (simp add: endsWith_def)
  from suffix_classification [of two_saved "''x-meta''" 300 "''Recording''"
      "\<lparr>bytes = [9, 9], mime = ''video/webm''\<rparr>" 0 None] e reachable_two_saved
  show ?thesis by blast
qed

end
